theory Spec2Isabelle
  imports Complex_Main
begin

section \<open>Physical units\<close>

text \<open>
  Quantities are real numbers in SI base units, so \<open>25*mV\<close> is the number \<open>0.025\<close>.
  The arithmetic is that of the reals, except in the subsection on binary64 arithmetic,
  which repeats the search with the rounding of the floating-point numbers the notebook
  computes with.
\<close>

definition mV :: real where "mV = 1 / 1000"
definition ms :: real where "ms = 1 / 1000"
definition msiemens :: real where "msiemens = 1 / 1000"
definition cm :: real where "cm = 1 / 100"
definition uF :: real where "uF = 1 / 1000000"

section \<open>Example 3: threshold of a Hodgkin-Huxley axon by bisection\<close>

subsection \<open>Parameters and rate functions\<close>

definition El :: real where "El = 10.613 * mV"
definition ENa :: real where "ENa = 115 * mV"
definition EK :: real where "EK = - 12 * mV"
definition gl :: real where "gl = 0.3 * msiemens / cm ^ 2"
definition gNa0 :: real where "gNa0 = 120 * msiemens / cm ^ 2"
definition gK :: real where "gK = 36 * msiemens / cm ^ 2"
definition gNa_max :: real where "gNa_max = 100 * msiemens / cm ^ 2"
definition gNa_min :: real where "gNa_min = 15 * msiemens / cm ^ 2"
definition C_axon :: real where "C_axon = 1 * uF / cm ^ 2"

definition alpham :: "real \<Rightarrow> real" where
  "alpham u = (0.1 / mV) * (- u + 25 * mV) / (exp ((- u + 25 * mV) / (10 * mV)) - 1) / ms"

definition betam :: "real \<Rightarrow> real" where
  "betam u = 4 * exp (- u / (18 * mV)) / ms"

definition alphah :: "real \<Rightarrow> real" where
  "alphah u = 0.07 * exp (- u / (20 * mV)) / ms"

definition betah :: "real \<Rightarrow> real" where
  "betah u = 1 / (exp ((- u + 30 * mV) / (10 * mV)) + 1) / ms"

definition alphan :: "real \<Rightarrow> real" where
  "alphan u = (0.01 / mV) * (- u + 10 * mV) / (exp ((- u + 10 * mV) / (10 * mV)) - 1) / ms"

definition betan :: "real \<Rightarrow> real" where
  "betan u = 0.125 * exp (- u / (80 * mV)) / ms"

subsection \<open>The network: 100 unconnected segments and their spike monitor\<close>

text \<open>
  One element per axon segment: its state variables \<open>axon.v\<close>, \<open>axon.gNa\<close>,
  \<open>axon.m\<close>, \<open>axon.n\<close>, \<open>axon.h\<close>, and the entry \<open>S.count\<close> of the spike
  monitor that belongs to it.
\<close>

record segment =
  axon_v :: real
  axon_gNa :: real
  axon_m :: real
  axon_n :: real
  axon_h :: real
  S_count :: nat

type_synonym network = "segment list"

text \<open>\<open>NeuronGroup(100, eqs, ...)\<close>: every state variable starts at zero.\<close>

definition NeuronGroup :: "nat \<Rightarrow> network" where
  "NeuronGroup k =
     replicate k \<lparr>axon_v = 0, axon_gNa = 0, axon_m = 0, axon_n = 0, axon_h = 0, S_count = 0\<rparr>"

text \<open>
  The string expression assigned to \<open>axon.gNa\<close>, as a function of the segment index
  \<open>i\<close> and the group size \<open>N\<close>.
\<close>

definition gNa_expr :: "nat \<Rightarrow> nat \<Rightarrow> real" where
  "gNa_expr i N = gNa_min + (gNa_max - gNa_min) * 1.0 * real i / real N"

definition set_gNa :: "(nat \<Rightarrow> nat \<Rightarrow> real) \<Rightarrow> network \<Rightarrow> network" where
  "set_gNa f g = map (\<lambda>i. (g ! i)\<lparr>axon_gNa := f i (length g)\<rparr>) [0..<length g]"

text \<open>
  The resting state: \<open>v\<close> first, then \<open>m\<close>, \<open>n\<close>, \<open>h\<close> from the rate functions at
  the segment's own \<open>v\<close>.
\<close>

definition set_rest :: "network \<Rightarrow> network" where
  "set_rest g =
     map (\<lambda>s. s\<lparr>axon_h := 1 / (1 + betah (axon_v s) / alphah (axon_v s))\<rparr>)
    (map (\<lambda>s. s\<lparr>axon_n := 1 / (1 + betan (axon_v s) / alphan (axon_v s))\<rparr>)
    (map (\<lambda>s. s\<lparr>axon_m := 1 / (1 + betam (axon_v s) / alpham (axon_v s))\<rparr>)
    (map (\<lambda>s. s\<lparr>axon_v := 0 * mV\<rparr>) g)))"

definition axon_setup :: "(nat \<Rightarrow> nat \<Rightarrow> real) \<Rightarrow> network" where
  "axon_setup f = set_rest (set_gNa f (NeuronGroup 100))"

text \<open>\<open>axon.v = v0\<close>: the shapes must agree.\<close>

datatype error = KeyError | IndexError | ValueError

definition set_v :: "real list \<Rightarrow> network \<Rightarrow> error + network" where
  "set_v vs g =
     (if length vs = length g then Inr (map2 (\<lambda>s x. s\<lparr>axon_v := x\<rparr>) g vs)
      else Inl ValueError)"

text \<open>
  \<open>run(20*ms)\<close> integrates the equations \<open>eqs\<close> with the library's \<open>rk4\<close> stepper
  and counts the threshold crossings. The equations of a segment mention that segment's
  variables only and the group has no synapses, so the library advances every segment on
  its own: the parameter \<open>sim\<close> is what 20 ms of simulation make of one segment and of
  its spike count.
\<close>

definition run :: "(segment \<Rightarrow> segment) \<Rightarrow> network \<Rightarrow> network" where
  "run sim g = map sim g"

subsection \<open>The state of the notebook\<close>

text \<open>
  \<open>calls\<close> is the history of the library calls and row assignments made so far, in
  order; it is not a variable of the notebook.
\<close>

datatype event = Store | Restore | SetV | Run | ReadCount | WriteRow nat

record state =
  net :: network
  stored :: "network option"
  v0 :: "real list"
  step :: real
  estimates :: "real option list list"
  calls :: "event list"

definition and_then :: "error + 'a \<Rightarrow> ('a \<Rightarrow> error + 'b) \<Rightarrow> error + 'b" where
  "and_then r f = (case r of Inl e \<Rightarrow> Inl e | Inr x \<Rightarrow> f x)"

definition store :: "state \<Rightarrow> state" where
  "store s = s\<lparr>stored := Some (net s), calls := calls s @ [Store]\<rparr>"

definition restore :: "state \<Rightarrow> error + state" where
  "restore s =
     (case stored s of
        None \<Rightarrow> Inl KeyError
      | Some g \<Rightarrow> Inr (s\<lparr>net := g, calls := calls s @ [Restore]\<rparr>))"

definition assign_v :: "state \<Rightarrow> error + state" where
  "assign_v s =
     and_then (set_v (v0 s) (net s))
       (\<lambda>g. Inr (s\<lparr>net := g, calls := calls s @ [SetV]\<rparr>))"

definition run_20ms :: "(segment \<Rightarrow> segment) \<Rightarrow> state \<Rightarrow> state" where
  "run_20ms sim s = s\<lparr>net := run sim (net s), calls := calls s @ [Run]\<rparr>"

text \<open>
  \<open>xs[mask] -= d\<close> and \<open>xs[mask] += d\<close> with a boolean mask, which must have the
  length of \<open>xs\<close>.
\<close>

definition masked_sub :: "bool list \<Rightarrow> real \<Rightarrow> real list \<Rightarrow> error + real list" where
  "masked_sub bs d xs =
     (if length bs = length xs then Inr (map2 (\<lambda>b x. if b then x - d else x) bs xs)
      else Inl IndexError)"

definition masked_add :: "bool list \<Rightarrow> real \<Rightarrow> real list \<Rightarrow> error + real list" where
  "masked_add bs d xs =
     (if length bs = length xs then Inr (map2 (\<lambda>b x. if b then x + d else x) bs xs)
      else Inl IndexError)"

definition decrease_spiked :: "state \<Rightarrow> error + state" where
  "decrease_spiked s =
     and_then (masked_sub (map (\<lambda>g. S_count g > 0) (net s)) (step s) (v0 s))
       (\<lambda>vs. Inr (s\<lparr>v0 := vs, calls := calls s @ [ReadCount]\<rparr>))"

definition increase_silent :: "state \<Rightarrow> error + state" where
  "increase_silent s =
     and_then (masked_add (map (\<lambda>g. S_count g = 0) (net s)) (step s) (v0 s))
       (\<lambda>vs. Inr (s\<lparr>v0 := vs, calls := calls s @ [ReadCount]\<rparr>))"

definition halve_step :: "state \<Rightarrow> state" where
  "halve_step s = s\<lparr>step := step s / 2.0\<rparr>"

text \<open>\<open>estimates[r, :] = v0\<close>.\<close>

definition set_row :: "nat \<Rightarrow> state \<Rightarrow> error + state" where
  "set_row r s =
     (if r < length (estimates s) then
        (if length (v0 s) = length (estimates s ! r) then
           Inr (s\<lparr>estimates := (estimates s)[r := map Some (v0 s)],
                  calls := calls s @ [WriteRow r]\<rparr>)
         else Inl ValueError)
      else Inl IndexError)"

text \<open>The body of the loop, for the loop index \<open>i\<close>.\<close>

definition iteration :: "(segment \<Rightarrow> segment) \<Rightarrow> nat \<Rightarrow> state \<Rightarrow> error + state" where
  "iteration sim i s =
     and_then (restore s) (\<lambda>s.
     and_then (assign_v s) (\<lambda>s.
     and_then (decrease_spiked (run_20ms sim s)) (\<lambda>s.
     and_then (increase_silent s) (\<lambda>s.
     set_row (i + 1) (halve_step s)))))"

primrec loop :: "(segment \<Rightarrow> segment) \<Rightarrow> nat list \<Rightarrow> state \<Rightarrow> error + state" where
  "loop sim [] s = Inr s"
| "loop sim (i # is) s = and_then (iteration sim i s) (loop sim is)"

text \<open>
  The cells before the loop, for a density assignment \<open>f\<close>, initial estimates \<open>vs\<close>
  and an initial step \<open>d\<close>: the group and its initial values, the monitor,
  \<open>store()\<close>, \<open>v0\<close>, \<open>step\<close>, and the array of estimates, filled with NaN
  (\<open>None\<close>) before its first row is assigned.
\<close>

definition prepare :: "(nat \<Rightarrow> nat \<Rightarrow> real) \<Rightarrow> real list \<Rightarrow> real \<Rightarrow> error + state" where
  "prepare f vs d =
     (let axon = axon_setup f in
      set_row 0
        ((store \<lparr>net = axon, stored = None, v0 = [], step = 0, estimates = [], calls = []\<rparr>)
           \<lparr>v0 := vs, step := d,
            estimates := replicate 11 (replicate (length axon) None)\<rparr>))"

definition start :: "error + state" where
  "start = prepare gNa_expr (replicate (length (axon_setup gNa_expr)) (25 * mV)) (25 * mV)"

text \<open>The state after the first \<open>k\<close> iterations, and the whole experiment.\<close>

definition after :: "(segment \<Rightarrow> segment) \<Rightarrow> nat \<Rightarrow> error + state" where
  "after sim k = and_then start (loop sim [0..<k])"

definition bisection :: "(segment \<Rightarrow> segment) \<Rightarrow> error + state" where
  "bisection sim = and_then start (loop sim [0..<10])"

text \<open>
  The same cells and iterations for any density assignment, initial estimates and initial
  step; \<open>after\<close> is the instance the notebook runs.
\<close>

definition search ::
  "(nat \<Rightarrow> nat \<Rightarrow> real) \<Rightarrow> real list \<Rightarrow> real \<Rightarrow> (segment \<Rightarrow> segment) \<Rightarrow> nat \<Rightarrow> error + state" where
  "search f vs d sim k = and_then (prepare f vs d) (loop sim [0..<k])"

subsection \<open>Auxiliary notions for the proofs\<close>

text \<open>
  A state in which the loop body can run: a snapshot \<open>snap\<close> is stored, \<open>v0\<close> has
  one entry per segment, and \<open>estimates\<close> has 11 rows of that length.
\<close>

definition ready :: "network \<Rightarrow> state \<Rightarrow> bool" where
  "ready snap s \<longleftrightarrow>
     stored s = Some snap \<and> length (v0 s) = length snap \<and> length (estimates s) = 11 \<and>
     (\<forall>r < 11. length (estimates s ! r) = length snap)"

text \<open>
  Whether a segment \<open>g\<close> of the snapshot spikes when it is simulated from the membrane
  potential \<open>x\<close>, and the estimate that follows from \<open>x\<close> with the correction \<open>d\<close>.
\<close>

definition spikes :: "(segment \<Rightarrow> segment) \<Rightarrow> segment \<Rightarrow> real \<Rightarrow> bool" where
  "spikes sim g x \<longleftrightarrow> S_count (sim (g\<lparr>axon_v := x\<rparr>)) > 0"

definition corrected :: "(segment \<Rightarrow> segment) \<Rightarrow> segment \<Rightarrow> real \<Rightarrow> real \<Rightarrow> real" where
  "corrected sim g d x = (if spikes sim g x then x - d else x + d)"

text \<open>
  The estimate of one segment after \<open>k\<close> iterations that start from the estimate
  \<open>x\<close> and the step \<open>d\<close>, and the estimates of all segments.
\<close>

primrec estimate :: "(segment \<Rightarrow> segment) \<Rightarrow> segment \<Rightarrow> real \<Rightarrow> real \<Rightarrow> nat \<Rightarrow> real" where
  "estimate sim g d x 0 = x"
| "estimate sim g d x (Suc k) = corrected sim g (d / 2 ^ k) (estimate sim g d x k)"

definition ests :: "(segment \<Rightarrow> segment) \<Rightarrow> network \<Rightarrow> real \<Rightarrow> real list \<Rightarrow> nat \<Rightarrow> real list" where
  "ests sim snap d vs k = map2 (\<lambda>g x. estimate sim g d x k) snap vs"

text \<open>The calls of one iteration, in order.\<close>

definition iteration_calls :: "nat \<Rightarrow> event list" where
  "iteration_calls i = [Restore, SetV, Run, ReadCount, ReadCount, WriteRow (i + 1)]"

text \<open>The network at the time of \<open>store()\<close>, and a segment of it at rest.\<close>

definition axon0 :: network where
  "axon0 = axon_setup gNa_expr"

definition resting :: "real \<Rightarrow> segment" where
  "resting gna =
     \<lparr>axon_v = 0, axon_gNa = gna,
      axon_m = 1 / (1 + betam 0 / alpham 0),
      axon_n = 1 / (1 + betan 0 / alphan 0),
      axon_h = 1 / (1 + betah 0 / alphah 0),
      S_count = 0\<rparr>"

text \<open>
  Reading entry \<open>j\<close> of \<open>v0\<close>, segment \<open>j\<close> of the network and entry \<open>(r, j)\<close> of
  \<open>estimates\<close> from the outcome of a computation; \<open>None\<close> when the computation
  raised or the index is out of range.
\<close>

definition v0_at :: "error + state \<Rightarrow> nat \<Rightarrow> real option" where
  "v0_at r j =
     (case r of Inl e \<Rightarrow> None
      | Inr s \<Rightarrow> if j < length (v0 s) then Some (v0 s ! j) else None)"

definition segment_at :: "error + state \<Rightarrow> nat \<Rightarrow> segment option" where
  "segment_at r j =
     (case r of Inl e \<Rightarrow> None
      | Inr s \<Rightarrow> if j < length (net s) then Some (net s ! j) else None)"

definition estimates_at :: "error + state \<Rightarrow> nat \<Rightarrow> nat \<Rightarrow> real option option" where
  "estimates_at r i j =
     (case r of Inl e \<Rightarrow> None
      | Inr s \<Rightarrow>
          if i < length (estimates s) \<and> j < length (estimates s ! i)
          then Some (estimates s ! i ! j) else None)"


text \<open>
  A simulation to try the search on: a segment emits one spike when it starts above
  \<open>vstar\<close> and none otherwise, and keeps its state variables.
\<close>

definition threshold_sim :: "real \<Rightarrow> segment \<Rightarrow> segment" where
  "threshold_sim vstar g = g\<lparr>S_count := S_count g + (if vstar < axon_v g then 1 else 0)\<rparr>"

subsection \<open>The search in binary64 arithmetic\<close>

text \<open>
  The notebook computes \<open>v0\<close> and \<open>step\<close> in binary64 floating point. The definitions
  of this subsection repeat the arithmetic of the search with every result passed
  through a rounding function \<open>rnd\<close>: the literal \<open>mV\<close>, the product \<open>25*mV\<close>, the
  product with \<open>ones(len(axon))\<close>, the two masked updates and the halving. With the
  identity for \<open>rnd\<close> they are the definitions above.
\<close>

text \<open>
  \<open>binary64 x\<close> is the number with 53 significant bits nearest to \<open>x\<close>, ties to the
  even significand. The exponent is not bounded: the numbers of the search are far from
  overflow and from the subnormal range.
\<close>

definition pow2 :: "int \<Rightarrow> real" where
  "pow2 e = (if 0 \<le> e then 2 ^ nat e else 1 / 2 ^ nat (- e))"

definition rne :: "real \<Rightarrow> int" where
  "rne y =
     (let f = \<lfloor>y\<rfloor> in
      if y - of_int f < 1 / 2 then f
      else if 1 / 2 < y - of_int f then f + 1
      else if even f then f else f + 1)"

definition binary64 :: "real \<Rightarrow> real" where
  "binary64 x =
     (if x = 0 then 0
      else (let q = pow2 (\<lfloor>log 2 \<bar>x\<bar>\<rfloor> - 52) in of_int (rne (x / q)) * q))"

text \<open>
  What the error analysis asks of a rounding function: a relative error of at most
  \<open>2^-53\<close>.
\<close>

definition rounds :: "(real \<Rightarrow> real) \<Rightarrow> bool" where
  "rounds rnd \<longleftrightarrow> (\<forall>x. \<bar>rnd x - x\<bar> \<le> \<bar>x\<bar> / 2 ^ 53)"

definition mV_fl :: "(real \<Rightarrow> real) \<Rightarrow> real" where
  "mV_fl rnd = rnd (1 / 1000)"

definition masked_sub_fl :: "(real \<Rightarrow> real) \<Rightarrow> bool list \<Rightarrow> real \<Rightarrow> real list \<Rightarrow> error + real list" where
  "masked_sub_fl rnd bs d xs =
     (if length bs = length xs then Inr (map2 (\<lambda>b x. if b then rnd (x - d) else x) bs xs)
      else Inl IndexError)"

definition masked_add_fl :: "(real \<Rightarrow> real) \<Rightarrow> bool list \<Rightarrow> real \<Rightarrow> real list \<Rightarrow> error + real list" where
  "masked_add_fl rnd bs d xs =
     (if length bs = length xs then Inr (map2 (\<lambda>b x. if b then rnd (x + d) else x) bs xs)
      else Inl IndexError)"

definition decrease_spiked_fl :: "(real \<Rightarrow> real) \<Rightarrow> state \<Rightarrow> error + state" where
  "decrease_spiked_fl rnd s =
     and_then (masked_sub_fl rnd (map (\<lambda>g. S_count g > 0) (net s)) (step s) (v0 s))
       (\<lambda>vs. Inr (s\<lparr>v0 := vs, calls := calls s @ [ReadCount]\<rparr>))"

definition increase_silent_fl :: "(real \<Rightarrow> real) \<Rightarrow> state \<Rightarrow> error + state" where
  "increase_silent_fl rnd s =
     and_then (masked_add_fl rnd (map (\<lambda>g. S_count g = 0) (net s)) (step s) (v0 s))
       (\<lambda>vs. Inr (s\<lparr>v0 := vs, calls := calls s @ [ReadCount]\<rparr>))"

definition halve_step_fl :: "(real \<Rightarrow> real) \<Rightarrow> state \<Rightarrow> state" where
  "halve_step_fl rnd s = s\<lparr>step := rnd (step s / 2.0)\<rparr>"

definition iteration_fl ::
  "(real \<Rightarrow> real) \<Rightarrow> (segment \<Rightarrow> segment) \<Rightarrow> nat \<Rightarrow> state \<Rightarrow> error + state" where
  "iteration_fl rnd sim i s =
     and_then (restore s) (\<lambda>s.
     and_then (assign_v s) (\<lambda>s.
     and_then (decrease_spiked_fl rnd (run_20ms sim s)) (\<lambda>s.
     and_then (increase_silent_fl rnd s) (\<lambda>s.
     set_row (i + 1) (halve_step_fl rnd s)))))"

primrec loop_fl ::
  "(real \<Rightarrow> real) \<Rightarrow> (segment \<Rightarrow> segment) \<Rightarrow> nat list \<Rightarrow> state \<Rightarrow> error + state" where
  "loop_fl rnd sim [] s = Inr s"
| "loop_fl rnd sim (i # is) s = and_then (iteration_fl rnd sim i s) (loop_fl rnd sim is)"

definition start_fl :: "(real \<Rightarrow> real) \<Rightarrow> error + state" where
  "start_fl rnd =
     prepare gNa_expr
       (map (\<lambda>one. rnd (rnd (25 * mV_fl rnd) * one))
          (replicate (length (axon_setup gNa_expr)) 1))
       (rnd (25 * mV_fl rnd))"

definition after_fl :: "(real \<Rightarrow> real) \<Rightarrow> (segment \<Rightarrow> segment) \<Rightarrow> nat \<Rightarrow> error + state" where
  "after_fl rnd sim k = and_then (start_fl rnd) (loop_fl rnd sim [0..<k])"

definition step_at :: "error + state \<Rightarrow> real option" where
  "step_at r = (case r of Inl e \<Rightarrow> None | Inr s \<Rightarrow> Some (step s))"

text \<open>
  The step after \<open>k\<close> iterations and the estimate of one segment after \<open>k\<close>
  iterations, with rounding.
\<close>

primrec step_fl :: "(real \<Rightarrow> real) \<Rightarrow> nat \<Rightarrow> real" where
  "step_fl rnd 0 = rnd (25 * mV_fl rnd)"
| "step_fl rnd (Suc k) = rnd (step_fl rnd k / 2)"

definition corrected_fl ::
  "(real \<Rightarrow> real) \<Rightarrow> (segment \<Rightarrow> segment) \<Rightarrow> segment \<Rightarrow> real \<Rightarrow> real \<Rightarrow> real" where
  "corrected_fl rnd sim g d x = (if spikes sim g x then rnd (x - d) else rnd (x + d))"

primrec estimate_fl :: "(real \<Rightarrow> real) \<Rightarrow> (segment \<Rightarrow> segment) \<Rightarrow> segment \<Rightarrow> nat \<Rightarrow> real" where
  "estimate_fl rnd sim g 0 = rnd (rnd (25 * mV_fl rnd) * 1)"
| "estimate_fl rnd sim g (Suc k) =
     corrected_fl rnd sim g (step_fl rnd k) (estimate_fl rnd sim g k)"

definition ests_fl ::
  "(real \<Rightarrow> real) \<Rightarrow> (segment \<Rightarrow> segment) \<Rightarrow> network \<Rightarrow> nat \<Rightarrow> real list" where
  "ests_fl rnd sim snap k = map (\<lambda>g. estimate_fl rnd sim g k) snap"

section \<open>Example 1: the pyloric circuit\<close>

definition second :: real where "second = 1"
definition nA :: real where "nA = 1 / 1000000000"
definition nS :: real where "nS = 1 / 1000000000"
definition uS :: real where "uS = 1 / 1000000"

definition Delta_T :: real where "Delta_T = 17.5 * mV"
definition v_r :: real where "v_r = - 68 * mV"
definition tau_Ca :: real where "tau_Ca = 150 * ms"
definition tau_z :: real where "tau_z = 5 * second"
definition S :: real where "S = 2 * nA / Delta_T"
definition G :: real where "G = 28.5 * nS"

definition ABPD :: int where "ABPD = 0"
definition LP :: int where "LP = 1"
definition PY :: int where "PY = 2"

subsection \<open>The neurons\<close>

text \<open>
  The state variables and constants of one neuron of \<open>circuit\<close> that the conductances,
  the Calcium signal, the threshold and the connection patterns read or write.
\<close>

record neuron =
  circuit_label :: int
  circuit_v :: real
  circuit_w :: real
  circuit_Ca :: real
  circuit_z :: real
  circuit_Ca_target :: real
  circuit_not_refractory :: bool

text \<open>The subexpressions \<open>s\<close> and \<open>g\<close> of \<open>eqs\<close>.\<close>

definition circuit_s :: "neuron \<Rightarrow> real" where
  "circuit_s nr = S * (1 - tanh (circuit_z nr))"

definition circuit_g :: "neuron \<Rightarrow> real" where
  "circuit_g nr = G * (1 + tanh (circuit_z nr))"

text \<open>The right-hand sides of \<open>dz/dt\<close> and \<open>dCa/dt\<close>.\<close>

definition dz_dt :: "neuron \<Rightarrow> real" where
  "dz_dt nr = tanh (circuit_Ca nr - circuit_Ca_target nr) / tau_z"

definition dCa_dt :: "neuron \<Rightarrow> real" where
  "dCa_dt nr = - circuit_Ca nr / tau_Ca"

text \<open>
  \<open>threshold='v>-20*mV'\<close> and \<open>reset='Ca += 0.1'\<close>: within a time step the library
  lets a neuron spike when the threshold condition holds and the neuron is not
  refractory, and runs the reset statement on the neurons that spiked.
\<close>

definition threshold :: "neuron \<Rightarrow> bool" where
  "threshold nr \<longleftrightarrow> circuit_v nr > - 20 * mV"

definition spiked :: "neuron \<Rightarrow> bool" where
  "spiked nr \<longleftrightarrow> threshold nr \<and> circuit_not_refractory nr"

definition reset :: "neuron \<Rightarrow> neuron" where
  "reset nr = nr\<lparr>circuit_Ca := circuit_Ca nr + 0.1\<rparr>"

definition spike_and_reset :: "neuron list \<Rightarrow> neuron list" where
  "spike_and_reset grp = map (\<lambda>nr. if spiked nr then reset nr else nr) grp"

text \<open>
  \<open>NeuronGroup(3, ...)\<close> and the initial values; \<open>rand_w\<close> and \<open>rand_z\<close> are the
  numbers that \<open>rand()\<close> draws for each neuron.
\<close>

definition circuit :: "(nat \<Rightarrow> real) \<Rightarrow> (nat \<Rightarrow> real) \<Rightarrow> neuron list" where
  "circuit rand_w rand_z =
     map (\<lambda>i. \<lparr>circuit_label = [ABPD, LP, PY] ! i,
               circuit_v = v_r,
               circuit_w = - 5 * nA * rand_w i,
               circuit_Ca = 0,
               circuit_z = rand_z i * 0.2 - 0.1,
               circuit_Ca_target = [0.048, 0.0384, 0.06] ! i,
               circuit_not_refractory = True\<rparr>) [0..<3]"

subsection \<open>The synapses\<close>

text \<open>
  \<open>connect(condition)\<close> creates a synapse for every pair of a source index \<open>i\<close> and a
  target index \<open>j\<close> whose labels satisfy the condition.
\<close>

definition connect :: "(int \<Rightarrow> int \<Rightarrow> bool) \<Rightarrow> neuron list \<Rightarrow> neuron list \<Rightarrow> (nat \<times> nat) list" where
  "connect cond source target =
     concat (map (\<lambda>i. map (\<lambda>j. (i, j))
       (filter (\<lambda>j. cond (circuit_label (source ! i)) (circuit_label (target ! j)))
          [0..<length target])) [0..<length source])"

record fast_synapse =
  fast_i :: nat
  fast_j :: nat
  g_fast :: real

record slow_synapse =
  slow_i :: nat
  slow_j :: nat
  k_2 :: real
  g_slow :: real

definition fast_condition :: "int \<Rightarrow> int \<Rightarrow> bool" where
  "fast_condition label_pre label_post \<longleftrightarrow>
     label_pre \<noteq> label_post \<and> \<not> (label_pre = PY \<and> label_post = ABPD)"

definition slow_condition :: "int \<Rightarrow> int \<Rightarrow> bool" where
  "slow_condition label_pre label_post \<longleftrightarrow> label_pre = ABPD \<and> label_post \<noteq> ABPD"

text \<open>
  \<open>synapses.var[condition] = value\<close> writes the value to the synapses whose labels
  satisfy the condition.
\<close>

definition set_g_fast :: "neuron list \<Rightarrow> (int \<Rightarrow> int \<Rightarrow> bool) \<Rightarrow> real \<Rightarrow> fast_synapse list \<Rightarrow> fast_synapse list" where
  "set_g_fast grp cond x syns =
     map (\<lambda>y. if cond (circuit_label (grp ! fast_i y)) (circuit_label (grp ! fast_j y))
               then y\<lparr>g_fast := x\<rparr> else y) syns"

definition set_g_slow :: "neuron list \<Rightarrow> (int \<Rightarrow> int \<Rightarrow> bool) \<Rightarrow> real \<Rightarrow> slow_synapse list \<Rightarrow> slow_synapse list" where
  "set_g_slow grp cond x syns =
     map (\<lambda>y. if cond (circuit_label (grp ! slow_i y)) (circuit_label (grp ! slow_j y))
               then y\<lparr>g_slow := x\<rparr> else y) syns"

definition set_k_2 :: "neuron list \<Rightarrow> (int \<Rightarrow> int \<Rightarrow> bool) \<Rightarrow> real \<Rightarrow> slow_synapse list \<Rightarrow> slow_synapse list" where
  "set_k_2 grp cond x syns =
     map (\<lambda>y. if cond (circuit_label (grp ! slow_i y)) (circuit_label (grp ! slow_j y))
               then y\<lparr>k_2 := x\<rparr> else y) syns"

text \<open>The conditions of the five assignments to \<open>g_fast\<close>, in the order of the notebook.\<close>

definition g_fast_conditions :: "(int \<Rightarrow> int \<Rightarrow> bool) list" where
  "g_fast_conditions =
     [\<lambda>label_pre label_post. label_pre = ABPD \<and> label_post = LP,
      \<lambda>label_pre label_post. label_pre = ABPD \<and> label_post = PY,
      \<lambda>label_pre label_post. label_pre = LP \<and> label_post = ABPD,
      \<lambda>label_pre label_post. label_pre = LP \<and> label_post = PY,
      \<lambda>label_pre label_post. label_pre = PY \<and> label_post = LP]"

definition fast_created :: "neuron list \<Rightarrow> fast_synapse list" where
  "fast_created grp =
     map (\<lambda>(i, j). \<lparr>fast_i = i, fast_j = j, g_fast = 0\<rparr>) (connect fast_condition grp grp)"

definition fast_synapses :: "neuron list \<Rightarrow> fast_synapse list" where
  "fast_synapses grp =
     set_g_fast grp (g_fast_conditions ! 4) (0.005 * uS)
    (set_g_fast grp (g_fast_conditions ! 3) (0.02 * uS)
    (set_g_fast grp (g_fast_conditions ! 2) (0.01 * uS)
    (set_g_fast grp (g_fast_conditions ! 1) (0.005 * uS)
    (set_g_fast grp (g_fast_conditions ! 0) (0.015 * uS)
    (fast_created grp)))))"

text \<open>The conditions of the assignments to \<open>g_slow\<close> and \<open>k_2\<close>.\<close>

definition slow_conditions :: "(int \<Rightarrow> int \<Rightarrow> bool) list" where
  "slow_conditions =
     [\<lambda>label_pre label_post. label_post = LP,
      \<lambda>label_pre label_post. label_post = PY]"

definition slow_created :: "neuron list \<Rightarrow> slow_synapse list" where
  "slow_created grp =
     map (\<lambda>(i, j). \<lparr>slow_i = i, slow_j = j, k_2 = 0, g_slow = 0\<rparr>)
       (connect slow_condition grp grp)"

definition slow_synapses :: "neuron list \<Rightarrow> slow_synapse list" where
  "slow_synapses grp =
     set_k_2 grp (slow_conditions ! 1) (0.008 / ms)
    (set_g_slow grp (slow_conditions ! 1) (0.015 * uS)
    (set_k_2 grp (slow_conditions ! 0) (0.03 / ms)
    (set_g_slow grp (slow_conditions ! 0) (0.025 * uS)
    (slow_created grp))))"

text \<open>
  The number of assignment conditions that a pair of labels satisfies, and the pairs of
  labels of a list of index pairs.
\<close>

definition matching :: "(int \<Rightarrow> int \<Rightarrow> bool) list \<Rightarrow> int \<times> int \<Rightarrow> nat" where
  "matching conds lp = length (filter (\<lambda>c. c (fst lp) (snd lp)) conds)"

definition label_pairs :: "neuron list \<Rightarrow> (nat \<times> nat) list \<Rightarrow> (int \<times> int) list" where
  "label_pairs grp ps = map (\<lambda>(i, j). (circuit_label (grp ! i), circuit_label (grp ! j))) ps"

section \<open>Proofs for the bisection search\<close>

subsection \<open>Sequencing and the loop\<close>

lemma length_axon_setup [simp]: "length (axon_setup f) = 100"
  by (simp add: axon_setup_def set_rest_def set_gNa_def NeuronGroup_def)

lemma and_then_Inr [simp]: "and_then (Inr x) f = f x"
  by (simp add: and_then_def)

lemma and_then_Inl [simp]: "and_then (Inl e) f = Inl e"
  by (simp add: and_then_def)

lemma and_then_return [simp]: "and_then r Inr = r"
  by (cases r) simp_all

lemma and_then_assoc: "and_then (and_then r f) g = and_then r (\<lambda>x. and_then (f x) g)"
  by (cases r) simp_all

lemma loop_append: "loop sim (xs @ ys) s = and_then (loop sim xs s) (loop sim ys)"
proof (induction xs arbitrary: s)
  case Nil
  show ?case by simp
next
  case (Cons i xs)
  show ?case
    by (cases "iteration sim i s") (simp_all add: Cons.IH)
qed

lemma loop_single: "loop sim [k] = iteration sim k"
proof (rule ext)
  fix s
  show "loop sim [k] s = iteration sim k s"
    by (cases "iteration sim k s") simp_all
qed

lemma loop_upt_Suc: "loop sim [0..<Suc k] s = and_then (loop sim [0..<k] s) (iteration sim k)"
  by (simp add: loop_append loop_single)

lemma two_masks:
  assumes "length gs = length xs"
  shows "map2 (\<lambda>b x. if b then x + d else x) (map (\<lambda>g. S_count g = 0) gs)
           (map2 (\<lambda>b x. if b then x - d else x) (map (\<lambda>g. S_count g > 0) gs) xs) =
         map2 (\<lambda>g x. if S_count g > 0 then x - d else x + d) gs xs"
  using assms by (simp add: list_eq_iff_nth_eq)

lemma run_set_v:
  assumes "length snap = length xs"
  shows "map2 (\<lambda>g x. if S_count g > 0 then x - d else x + d)
           (map sim (map2 (\<lambda>g x. g\<lparr>axon_v := x\<rparr>) snap xs)) xs =
         map2 (\<lambda>g x. corrected sim g d x) snap xs"
  using assms by (simp add: list_eq_iff_nth_eq corrected_def spikes_def)

lemma iteration_ready:
  assumes "ready snap s" "i < 10"
  shows "iteration sim i s =
    Inr (s\<lparr>net := map sim (map2 (\<lambda>g x. g\<lparr>axon_v := x\<rparr>) snap (v0 s)),
          v0 := map2 (\<lambda>g x. corrected sim g (step s) x) snap (v0 s),
          step := step s / 2,
          estimates := (estimates s)[i + 1 := map Some (map2 (\<lambda>g x. corrected sim g (step s) x) snap (v0 s))],
          calls := calls s @ [Restore, SetV, Run, ReadCount, ReadCount, WriteRow (i + 1)]\<rparr>)"
proof -
  from assms have st: "stored s = Some snap" and lv: "length (v0 s) = length snap"
    and le: "length (estimates s) = 11" and lr: "length (estimates s ! (i + 1)) = length snap"
    by (simp_all add: ready_def)
  define s1 where "s1 = s\<lparr>net := snap, calls := calls s @ [Restore]\<rparr>"
  define s2 where "s2 = s1\<lparr>net := map2 (\<lambda>g x. g\<lparr>axon_v := x\<rparr>) snap (v0 s), calls := calls s1 @ [SetV]\<rparr>"
  define s3 where "s3 = run_20ms sim s2"
  define s4 where "s4 = s3\<lparr>v0 := map2 (\<lambda>b x. if b then x - step s else x) (map (\<lambda>g. S_count g > 0) (net s3)) (v0 s),
     calls := calls s3 @ [ReadCount]\<rparr>"
  define s5 where "s5 = s4\<lparr>v0 := map2 (\<lambda>g x. corrected sim g (step s) x) snap (v0 s),
     calls := calls s4 @ [ReadCount]\<rparr>"
  have r1: "restore s = Inr s1"
    by (simp add: restore_def st s1_def)
  have r2: "assign_v s1 = Inr s2"
    by (simp add: assign_v_def set_v_def s1_def s2_def lv)
  have n3: "net s3 = map sim (map2 (\<lambda>g x. g\<lparr>axon_v := x\<rparr>) snap (v0 s))"
    and v3: "v0 s3 = v0 s" and d3: "step s3 = step s"
    by (simp_all add: s3_def run_20ms_def run_def s2_def s1_def)
  have r4: "decrease_spiked s3 = Inr s4"
    by (simp add: decrease_spiked_def masked_sub_def s4_def v3 d3 n3 lv)
  have n4: "net s4 = net s3" and d4: "step s4 = step s"
    by (simp_all add: s4_def d3)
  have v4: "v0 s4 = map2 (\<lambda>b x. if b then x - step s else x) (map (\<lambda>g. S_count g > 0) (net s3)) (v0 s)"
    by (simp add: s4_def)
  have l3: "length (net s3) = length (v0 s)"
    by (simp add: n3 lv)
  have "map2 (\<lambda>b x. if b then x + step s else x) (map (\<lambda>g. S_count g = 0) (net s3)) (v0 s4)
        = map2 (\<lambda>g x. if S_count g > 0 then x - step s else x + step s) (net s3) (v0 s)"
    unfolding v4 by (rule two_masks [OF l3])
  also have "\<dots> = map2 (\<lambda>g x. corrected sim g (step s) x) snap (v0 s)"
    unfolding n3 by (rule run_set_v) (simp add: lv)
  finally have "map2 (\<lambda>b x. if b then x + step s else x) (map (\<lambda>g. S_count g = 0) (net s3)) (v0 s4)
        = map2 (\<lambda>g x. corrected sim g (step s) x) snap (v0 s)" .
  then have r5: "increase_silent s4 = Inr s5"
    by (simp add: increase_silent_def masked_add_def n4 d4 s5_def v4 l3)
  have r6: "set_row (i + 1) (halve_step s5) =
    Inr (s\<lparr>net := map sim (map2 (\<lambda>g x. g\<lparr>axon_v := x\<rparr>) snap (v0 s)),
          v0 := map2 (\<lambda>g x. corrected sim g (step s) x) snap (v0 s),
          step := step s / 2,
          estimates := (estimates s)[i + 1 := map Some (map2 (\<lambda>g x. corrected sim g (step s) x) snap (v0 s))],
          calls := calls s @ [Restore, SetV, Run, ReadCount, ReadCount, WriteRow (i + 1)]\<rparr>)"
    using assms(2) le lr lv
    by (simp add: set_row_def halve_step_def s5_def s4_def s3_def run_20ms_def run_def s2_def s1_def)
  show ?thesis
    unfolding iteration_def r1 and_then_Inr r2 s3_def [symmetric] r4 r5
    by (rule r6)
qed


lemma prepare_ok:
  assumes "length vs = 100"
  shows "prepare f vs d =
     Inr \<lparr>net = axon_setup f, stored = Some (axon_setup f), v0 = vs, step = d,
          estimates = (replicate 11 (replicate 100 None))[0 := map Some vs],
          calls = [Store, WriteRow 0]\<rparr>"
  using assms by (simp add: prepare_def Let_def set_row_def store_def)

lemma length_ests [simp]: "length (ests sim snap d vs k) = min (length snap) (length vs)"
  by (simp add: ests_def)

lemma ests_0: "length snap = length vs \<Longrightarrow> ests sim snap d vs 0 = vs"
  by (simp add: ests_def list_eq_iff_nth_eq)

lemma ests_Suc:
  "length snap = length vs \<Longrightarrow>
   map2 (\<lambda>g x. corrected sim g (d / 2 ^ k) x) snap (ests sim snap d vs k) = ests sim snap d vs (Suc k)"
  by (simp add: ests_def list_eq_iff_nth_eq)

lemma rows_update:
  assumes "k < 10"
  shows "(map (\<lambda>r. if r \<le> k then map Some (E r) else replicate 100 None) [0..<11])
            [Suc k := map Some (E (Suc k))] =
         map (\<lambda>r. if r \<le> Suc k then map Some (E r) else replicate 100 None) [0..<11]"
  using assms by (auto simp: list_eq_iff_nth_eq nth_list_update)

lemma iteration_calls_fold:
  "[Restore, SetV, Run, ReadCount, ReadCount, WriteRow (Suc k)] = iteration_calls k"
  by (simp add: iteration_calls_def)

lemma search_state:
  assumes "length vs = 100" "k \<le> 10"
  shows "search f vs d sim k =
     Inr \<lparr>net = (if k = 0 then axon_setup f
                 else map sim (map2 (\<lambda>g x. g\<lparr>axon_v := x\<rparr>) (axon_setup f)
                        (ests sim (axon_setup f) d vs (k - 1)))),
          stored = Some (axon_setup f),
          v0 = ests sim (axon_setup f) d vs k,
          step = d / 2 ^ k,
          estimates = map (\<lambda>r. if r \<le> k then map Some (ests sim (axon_setup f) d vs r)
                                else replicate 100 None) [0..<11],
          calls = [Store, WriteRow 0] @ concat (map iteration_calls [0..<k])\<rparr>"
  using assms(2)
proof (induction k)
  case 0
  have "(replicate 11 (replicate 100 None))[0 := map Some vs] =
        map (\<lambda>r. if r \<le> 0 then map Some (ests sim (axon_setup f) d vs r)
                                else replicate 100 None) [0..<11]"
    using assms(1) by (auto simp: list_eq_iff_nth_eq nth_list_update ests_0)
  then show ?case
    using assms(1) by (simp add: search_def prepare_ok ests_0)
next
  case (Suc k)
  let ?snap = "axon_setup f"
  let ?s = "\<lparr>net = (if k = 0 then axon_setup f
                 else map sim (map2 (\<lambda>g x. g\<lparr>axon_v := x\<rparr>) (axon_setup f)
                        (ests sim (axon_setup f) d vs (k - 1)))),
          stored = Some (axon_setup f),
          v0 = ests sim (axon_setup f) d vs k,
          step = d / 2 ^ k,
          estimates = map (\<lambda>r. if r \<le> k then map Some (ests sim (axon_setup f) d vs r)
                                else replicate 100 None) [0..<11],
          calls = [Store, WriteRow 0] @ concat (map iteration_calls [0..<k])\<rparr>"
  from Suc have k: "k < 10" and IH: "search f vs d sim k = Inr ?s"
    by simp_all
  have rd: "ready ?snap ?s"
    using assms(1) by (simp add: ready_def)
  have "search f vs d sim (Suc k) = and_then (search f vs d sim k) (iteration sim k)"
    unfolding search_def by (cases "prepare f vs d") (simp_all add: loop_upt_Suc del: upt_Suc)
  also have "\<dots> = iteration sim k ?s"
    by (simp add: IH)
  finally have "search f vs d sim (Suc k) = iteration sim k ?s" .
  then show ?case
    unfolding iteration_ready [OF rd k]
    using assms(1) k
    by (simp add: ests_Suc rows_update iteration_calls_fold)
qed

subsection \<open>The state after \<open>k\<close> iterations\<close>

lemma after_search: "after sim k = search gNa_expr (replicate 100 (25 * mV)) (25 * mV) sim k"
  by (simp add: after_def search_def start_def)

lemma bisection_after: "bisection sim = after sim 10"
  by (simp add: bisection_def after_def)

lemma count_Run: "count_list (concat (map iteration_calls [0..<k])) Run = k"
  by (induction k) (simp_all add: iteration_calls_def)

lemma after_state:
  assumes "k \<le> 10"
  shows "after sim k =
     Inr \<lparr>net = (if k = 0 then axon0
                 else map sim (map2 (\<lambda>g x. g\<lparr>axon_v := x\<rparr>) axon0
                        (ests sim axon0 (25 * mV) (replicate 100 (25 * mV)) (k - 1)))),
          stored = Some axon0,
          v0 = ests sim axon0 (25 * mV) (replicate 100 (25 * mV)) k,
          step = 25 * mV / 2 ^ k,
          estimates = map (\<lambda>r. if r \<le> k then map Some (ests sim axon0 (25 * mV) (replicate 100 (25 * mV)) r)
                                else replicate 100 None) [0..<11],
          calls = [Store, WriteRow 0] @ concat (map iteration_calls [0..<k])\<rparr>"
  unfolding after_search axon0_def using assms by (intro search_state) simp_all

subsection \<open>The step\<close>

text \<open>
  Claim C2. The search runs exactly 10 iterations and halves the correction step in each:
  starting from 25 mV, the step after the \<open>k\<close>-th iteration is \<open>25/2^k\<close> mV, and
  \<open>25/1024\<close> mV after the tenth, which is the last (\<open>run\<close> has then been called 10
  times).
\<close>

theorem step_halved:
  assumes "k \<le> 10"
  shows "(\<exists>s. after sim k = Inr s \<and> step s = 25 * mV / 2 ^ k \<and> count_list (calls s) Run = k) \<and>
         (\<exists>s. bisection sim = Inr s \<and> step s = 25 * mV / 1024 \<and> count_list (calls s) Run = 10)"
proof
  show "\<exists>s. after sim k = Inr s \<and> step s = 25 * mV / 2 ^ k \<and> count_list (calls s) Run = k"
    by (simp add: after_state [OF assms] count_Run)
  show "\<exists>s. bisection sim = Inr s \<and> step s = 25 * mV / 1024 \<and> count_list (calls s) Run = 10"
    by (simp add: bisection_after after_state count_Run)
qed

theorem step_halved_witness:
  "(3::nat) \<le> 10 \<and>
   (\<exists>s. after (threshold_sim (24 * mV)) 3 = Inr s \<and> step s = 25 * mV / 2 ^ 3 \<and>
        count_list (calls s) Run = 3) \<and>
   (\<exists>s. bisection (threshold_sim (24 * mV)) = Inr s \<and> step s = 25 * mV / 1024 \<and>
        count_list (calls s) Run = 10)"
  using step_halved [of 3 "threshold_sim (24 * mV)"] by simp

subsection \<open>The estimate of one segment\<close>

lemma length_axon0 [simp]: "length axon0 = 100"
  by (simp add: axon0_def)

lemma ests_nth:
  assumes "j < length snap" "j < length vs"
  shows "ests sim snap d vs k ! j = estimate sim (snap ! j) d (vs ! j) k"
  using assms by (simp add: ests_def)



subsection \<open>Convergence towards the threshold\<close>

lemma axon_setup_nth:
  assumes "j < 100"
  shows "axon_setup f ! j = resting (f j 100)"
  using assms by (simp add: axon_setup_def set_rest_def set_gNa_def NeuronGroup_def resting_def)

lemma threshold_sim_spikes:
  "spikes (threshold_sim vstar) (resting gna) x \<longleftrightarrow> vstar < x"
  by (simp add: spikes_def threshold_sim_def resting_def)





subsection \<open>Store once, restore in every iteration\<close>

lemma start_state:
  "start = Inr \<lparr>net = axon0, stored = Some axon0, v0 = replicate 100 (25 * mV), step = 25 * mV,
          estimates = (replicate 11 (replicate 100 None))[0 := map Some (replicate 100 (25 * mV))],
          calls = [Store, WriteRow 0]\<rparr>"
  by (simp add: start_def prepare_ok axon0_def)




subsection \<open>Independence of the segments\<close>

lemma estimates_at_search:
  assumes "length vs = 100" "k \<le> 10" "r \<le> k" "j < 100"
  shows "estimates_at (search f vs d sim k) r j =
           Some (Some (estimate sim (resting (f j 100)) d (vs ! j) r))"
  using assms by (simp add: search_state estimates_at_def ests_nth axon_setup_nth)

lemma v0_at_search:
  assumes "length vs = 100" "k \<le> 10" "j < 100"
  shows "v0_at (search f vs d sim k) j = Some (estimate sim (resting (f j 100)) d (vs ! j) k)"
  using assms by (simp add: search_state v0_at_def ests_nth axon_setup_nth)

text \<open>
  Claim C4. The 100 conditions are independent: the estimates of segment \<open>j\<close> across
  the iterations, in \<open>v0\<close> and in column \<open>j\<close> of \<open>estimates\<close>, are a function of
  the segment's own density \<open>gNa[j]\<close>, of its initial estimate and of the initial step.
  Another density assignment and other initial estimates that agree with the first ones
  at \<open>j\<close> give the same estimates for segment \<open>j\<close>.
\<close>

theorem segments_independent:
  assumes "j < 100" "k \<le> 10" "length vs = 100" "length vs' = 100"
    and "f j 100 = f' j 100" "vs ! j = vs' ! j"
  shows "after sim k = search gNa_expr (replicate 100 (25 * mV)) (25 * mV) sim k \<and>
         v0_at (search f vs d sim k) j = Some (estimate sim (resting (f j 100)) d (vs ! j) k) \<and>
         v0_at (search f' vs' d sim k) j = v0_at (search f vs d sim k) j \<and>
         (\<forall>r\<le>k. estimates_at (search f vs d sim k) r j =
                   Some (Some (estimate sim (resting (f j 100)) d (vs ! j) r)) \<and>
                 estimates_at (search f' vs' d sim k) r j = estimates_at (search f vs d sim k) r j)"
  using assms by (simp add: after_search v0_at_search estimates_at_search)


theorem segments_independent_witness:
  "(0::nat) < 100 \<and> (2::nat) \<le> 10 \<and> length (replicate 100 (25 * mV)) = 100 \<and>
   length ((replicate 100 (0::real))[0 := 25 * mV]) = 100 \<and>
   gNa_expr 0 100 = (\<lambda>i N. if i = 0 then gNa_expr i N else 0) 0 100 \<and>
   replicate 100 (25 * mV) ! 0 = (replicate 100 (0::real))[0 := 25 * mV] ! 0 \<and>
   v0_at (search (\<lambda>i N. if i = 0 then gNa_expr i N else 0) ((replicate 100 0)[0 := 25 * mV])
            (25 * mV) (threshold_sim (24 * mV)) 2) 0 =
   v0_at (search gNa_expr (replicate 100 (25 * mV)) (25 * mV) (threshold_sim (24 * mV)) 2) 0"
  using segments_independent [of 0 2 "replicate 100 (25 * mV)" "(replicate 100 0)[0 := 25 * mV]"
      gNa_expr "\<lambda>i N. if i = 0 then gNa_expr i N else 0" "threshold_sim (24 * mV)" "25 * mV"]
  by simp

subsection \<open>The channel densities\<close>

lemma gNa_axon0:
  assumes "i < 100"
  shows "axon_gNa (axon0 ! i) = gNa_min + (gNa_max - gNa_min) * real i / 100"
  using assms by (simp add: axon0_def axon_setup_nth resting_def gNa_expr_def)

lemma gNa_axon0_less:
  assumes "i < j" "j < 100"
  shows "axon_gNa (axon0 ! i) < axon_gNa (axon0 ! j)"
proof -
  have "0 < gNa_max - gNa_min"
    by (simp add: gNa_max_def gNa_min_def msiemens_def cm_def)
  moreover have "real i < real j"
    using assms by simp
  ultimately have "(gNa_max - gNa_min) * real i < (gNa_max - gNa_min) * real j"
    by simp
  then show ?thesis
    using assms by (simp add: gNa_axon0 divide_strict_right_mono)
qed

text \<open>
  Claim C6. Segment \<open>i\<close> of the 100 segments has the sodium channel density
  \<open>gNa_min + (gNa_max - gNa_min)*i/100\<close>, which increases strictly with \<open>i\<close>, from
  15 mS/cm^2 at \<open>i = 0\<close> to 99.15 mS/cm^2 at \<open>i = 99\<close>; the densities are pairwise
  distinct.
\<close>

theorem densities_distinct:
  "length axon0 = 100 \<and> (\<exists>s. start = Inr s \<and> net s = axon0) \<and>
   (\<forall>i<100. axon_gNa (axon0 ! i) = gNa_min + (gNa_max - gNa_min) * real i / 100) \<and>
   (\<forall>i<100. \<forall>j<100. i < j \<longrightarrow> axon_gNa (axon0 ! i) < axon_gNa (axon0 ! j)) \<and>
   distinct (map axon_gNa axon0) \<and>
   axon_gNa (axon0 ! 0) = 15 * (msiemens / cm ^ 2) \<and>
   axon_gNa (axon0 ! 99) = 99.15 * (msiemens / cm ^ 2)"
proof (intro conjI)
  show "length axon0 = 100"
    by simp
  show "\<exists>s. start = Inr s \<and> net s = axon0"
    by (simp add: start_state)
  show "\<forall>i<100. axon_gNa (axon0 ! i) = gNa_min + (gNa_max - gNa_min) * real i / 100"
    by (simp add: gNa_axon0)
  show "\<forall>i<100. \<forall>j<100. i < j \<longrightarrow> axon_gNa (axon0 ! i) < axon_gNa (axon0 ! j)"
    by (simp add: gNa_axon0_less)
  show "distinct (map axon_gNa axon0)"
  proof (unfold distinct_conv_nth, intro allI impI)
    fix i j
    assume "i < length (map axon_gNa axon0)" "j < length (map axon_gNa axon0)" "i \<noteq> j"
    then have "i < 100" "j < 100" "i < j \<or> j < i"
      by auto
    then have "axon_gNa (axon0 ! i) \<noteq> axon_gNa (axon0 ! j)"
      using gNa_axon0_less [of i j] gNa_axon0_less [of j i] by auto
    then show "map axon_gNa axon0 ! i \<noteq> map axon_gNa axon0 ! j"
      using \<open>i < 100\<close> \<open>j < 100\<close> by simp
  qed
  show "axon_gNa (axon0 ! 0) = 15 * (msiemens / cm ^ 2)"
    by (simp add: gNa_axon0 gNa_min_def)
  show "axon_gNa (axon0 ! 99) = 99.15 * (msiemens / cm ^ 2)"
    by (simp add: gNa_axon0 gNa_min_def gNa_max_def msiemens_def cm_def)
qed

theorem densities_distinct_witness:
  "(3::nat) < 100 \<and> (7::nat) < 100 \<and> (3::nat) < 7 \<and>
   axon_gNa (axon0 ! 3) = gNa_min + (gNa_max - gNa_min) * real (3::nat) / 100 \<and>
   axon_gNa (axon0 ! 3) < axon_gNa (axon0 ! 7)"
proof -
  have a: "axon_gNa (axon0 ! 3) = gNa_min + (gNa_max - gNa_min) * real (3::nat) / 100"
    using densities_distinct [THEN conjunct2, THEN conjunct2, THEN conjunct1, rule_format, of 3]
    by simp
  have b: "axon_gNa (axon0 ! 3) < axon_gNa (axon0 ! 7)"
    using densities_distinct [THEN conjunct2, THEN conjunct2, THEN conjunct2, THEN conjunct1,
        rule_format, of 3 7]
    by simp
  from a b show ?thesis
    by (intro conjI) simp_all
qed

subsection \<open>What the loop changes\<close>

lemma estimate_24: 
  "estimate (threshold_sim (24 * mV)) (resting gna) (25 * mV) (25 * mV) 9 = 23.92578125 * mV"
  by (simp add: eval_nat_numeral corrected_def threshold_sim_spikes mV_def)

text \<open>
  Claim C7, as stated, fails: the loop also changes the state of the network. With a
  threshold of 24 mV the membrane potential of segment 0 is 0 mV before the loop and
  23.92578125 mV, the ninth estimate, after it.
\<close>

theorem network_changed:
  "map_option axon_v (segment_at start 0) = Some 0 \<and>
   map_option axon_v (segment_at (bisection (threshold_sim (24 * mV))) 0) = Some (23.92578125 * mV) \<and>
   (0::real) \<noteq> 23.92578125 * mV"
proof -
  have a: "map_option axon_v (segment_at start 0) = Some 0"
    by (simp add: start_state segment_at_def axon0_def axon_setup_nth resting_def)
  have "ests (threshold_sim (24 * mV)) axon0 (25 * mV) (replicate 100 (25 * mV)) 9 ! 0
        = 23.92578125 * mV"
    by (simp add: ests_nth axon0_def axon_setup_nth estimate_24)
  then have b: "map_option axon_v (segment_at (bisection (threshold_sim (24 * mV))) 0)
        = Some (23.92578125 * mV)"
    by (simp add: bisection_after after_state segment_at_def threshold_sim_def)
  have c: "(0::real) \<noteq> 23.92578125 * mV"
    by (simp add: mV_def)
  from a b c show ?thesis by blast
qed

text \<open>
  Claim C7, as amended. The loop changes \<open>v0\<close>, \<open>step\<close>, \<open>estimates\<close> and the
  current state of the network, which \<open>restore()\<close>, \<open>axon.v = v0\<close> and \<open>run\<close>
  overwrite. It leaves the stored snapshot as it was, and the network state that an
  iteration finds has no influence on what the iteration does: only \<open>v0\<close>, \<open>step\<close>
  and \<open>estimates\<close> carry over from one iteration to the next.
\<close>

theorem snapshot_kept:
  "(\<exists>s0 s. start = Inr s0 \<and> bisection sim = Inr s \<and> stored s0 = Some (net s0) \<and>
       stored s = stored s0) \<and>
   iteration sim i (s\<lparr>net := g\<rparr>) = iteration sim i s"
proof
  show "\<exists>s0 s. start = Inr s0 \<and> bisection sim = Inr s \<and> stored s0 = Some (net s0) \<and>
       stored s = stored s0"
    by (simp add: start_state bisection_after after_state)
  show "iteration sim i (s\<lparr>net := g\<rparr>) = iteration sim i s"
    by (simp add: iteration_def restore_def split: option.splits)
qed

subsection \<open>The array of estimates\<close>

lemma count_WriteRow:
  "count_list (concat (map iteration_calls [0..<k])) (WriteRow r) = (if 1 \<le> r \<and> r \<le> k then 1 else 0)"
  by (induction k) (auto simp: iteration_calls_def)

text \<open>
  Claim C9. The array \<open>estimates\<close> has 11 rows of 100 entries, NaN at first except
  for row 0, which holds the initial estimate of 25 mV. After the loop no entry is NaN:
  row \<open>i + 1\<close> has been assigned once, in iteration \<open>i\<close>, with the estimates that
  this iteration produced.
\<close>

theorem estimates_filled:
  "(\<exists>s0. start = Inr s0 \<and> estimates s0 ! 0 = replicate 100 (Some (25 * mV)) \<and>
       (\<forall>r<11. 0 < r \<longrightarrow> estimates s0 ! r = replicate 100 None)) \<and>
   (\<exists>s. bisection sim = Inr s \<and> length (estimates s) = 11 \<and>
       (\<forall>r<11. length (estimates s ! r) = 100 \<and> (\<forall>c<100. estimates s ! r ! c \<noteq> None)) \<and>
       estimates s ! 0 = replicate 100 (Some (25 * mV)) \<and>
       count_list (calls s) (WriteRow 0) = 1 \<and>
       (\<forall>i<10. count_list (calls s) (WriteRow (i + 1)) = 1 \<and>
          (\<exists>t. after sim (Suc i) = Inr t \<and> estimates s ! (i + 1) = map Some (v0 t))))"
proof
  show "\<exists>s0. start = Inr s0 \<and> estimates s0 ! 0 = replicate 100 (Some (25 * mV)) \<and>
       (\<forall>r<11. 0 < r \<longrightarrow> estimates s0 ! r = replicate 100 None)"
    by (simp add: start_state)
  let ?E = "ests sim axon0 (25 * mV) (replicate 100 (25 * mV))"
  let ?rows = "map (\<lambda>r. if r \<le> 10 then map Some (?E r) else replicate 100 None) [0..<11]"
  have row: "?rows ! r = map Some (?E r)" if "r < 11" for r
    using that by (simp del: upt_Suc)
  have r0: "?rows ! 0 = replicate 100 (Some (25 * mV))"
    unfolding row [of 0, simplified] by (simp add: ests_0 map_replicate)
  have full: "\<forall>r<11. length (?rows ! r) = 100 \<and> (\<forall>c<100. ?rows ! r ! c \<noteq> None)"
    by (simp add: row del: upt_Suc)
  have later: "\<forall>i<10. count_list ([Store, WriteRow 0] @ concat (map iteration_calls [0..<10])) (WriteRow (i + 1)) = 1 \<and>
          (\<exists>t. after sim (Suc i) = Inr t \<and> ?rows ! (i + 1) = map Some (v0 t))"
    by (simp add: row after_state count_WriteRow del: upt_Suc)
  show "\<exists>s. bisection sim = Inr s \<and> length (estimates s) = 11 \<and>
       (\<forall>r<11. length (estimates s ! r) = 100 \<and> (\<forall>c<100. estimates s ! r ! c \<noteq> None)) \<and>
       estimates s ! 0 = replicate 100 (Some (25 * mV)) \<and>
       count_list (calls s) (WriteRow 0) = 1 \<and>
       (\<forall>i<10. count_list (calls s) (WriteRow (i + 1)) = 1 \<and>
          (\<exists>t. after sim (Suc i) = Inr t \<and> estimates s ! (i + 1) = map Some (v0 t)))"
    unfolding bisection_after after_state [of 10 sim, simplified]
    using r0 full later by (simp add: count_WriteRow del: upt_Suc)
qed

theorem estimates_filled_witness:
  "(3::nat) < 11 \<and> (5::nat) < 100 \<and> (2::nat) < 10 \<and>
   (\<exists>s. bisection (threshold_sim (24 * mV)) = Inr s \<and>
      length (estimates s ! 3) = 100 \<and> estimates s ! 3 ! 5 \<noteq> None \<and>
      count_list (calls s) (WriteRow (2 + 1)) = 1 \<and>
      (\<exists>t. after (threshold_sim (24 * mV)) (Suc 2) = Inr t \<and>
           estimates s ! (2 + 1) = map Some (v0 t)))"
proof -
  obtain s where s: "bisection (threshold_sim (24 * mV)) = Inr s"
    and full: "\<forall>r<11. length (estimates s ! r) = 100 \<and> (\<forall>c<100. estimates s ! r ! c \<noteq> None)"
    and rows: "\<forall>i<10. count_list (calls s) (WriteRow (i + 1)) = 1 \<and>
          (\<exists>t. after (threshold_sim (24 * mV)) (Suc i) = Inr t \<and>
               estimates s ! (i + 1) = map Some (v0 t))"
    using estimates_filled [of "threshold_sim (24 * mV)", THEN conjunct2] by blast
  have r: "(3::nat) < 11" and c: "(5::nat) < 100" and i: "(2::nat) < 10"
    by simp_all
  from full [rule_format, OF r] have "length (estimates s ! 3) = 100"
    and "estimates s ! 3 ! 5 \<noteq> None"
    using c by simp_all
  with s rows [rule_format, OF i] r c i show ?thesis
    by blast
qed

subsection \<open>The search with rounding\<close>

lemma loop_fl_append:
  "loop_fl rnd sim (xs @ ys) s = and_then (loop_fl rnd sim xs s) (loop_fl rnd sim ys)"
proof (induction xs arbitrary: s)
  case Nil
  show ?case by simp
next
  case (Cons i xs)
  show ?case
    by (cases "iteration_fl rnd sim i s") (simp_all add: Cons.IH)
qed

lemma loop_fl_single: "loop_fl rnd sim [k] = iteration_fl rnd sim k"
proof (rule ext)
  fix s
  show "loop_fl rnd sim [k] s = iteration_fl rnd sim k s"
    by (cases "iteration_fl rnd sim k s") simp_all
qed

lemma loop_fl_upt_Suc:
  "loop_fl rnd sim [0..<Suc k] s = and_then (loop_fl rnd sim [0..<k] s) (iteration_fl rnd sim k)"
  by (simp add: loop_fl_append loop_fl_single)

lemma two_masks_fl:
  assumes "length gs = length xs"
  shows "map2 (\<lambda>b x. if b then rnd (x + d) else x) (map (\<lambda>g. S_count g = 0) gs)
           (map2 (\<lambda>b x. if b then rnd (x - d) else x) (map (\<lambda>g. S_count g > 0) gs) xs) =
         map2 (\<lambda>g x. if S_count g > 0 then rnd (x - d) else rnd (x + d)) gs xs"
  using assms by (simp add: list_eq_iff_nth_eq)

lemma run_set_v_fl:
  assumes "length snap = length xs"
  shows "map2 (\<lambda>g x. if S_count g > 0 then rnd (x - d) else rnd (x + d))
           (map sim (map2 (\<lambda>g x. g\<lparr>axon_v := x\<rparr>) snap xs)) xs =
         map2 (\<lambda>g x. corrected_fl rnd sim g d x) snap xs"
  using assms by (simp add: list_eq_iff_nth_eq corrected_fl_def spikes_def)

lemma iteration_fl_ready:
  assumes "ready snap s" "i < 10"
  shows "iteration_fl rnd sim i s =
    Inr (s\<lparr>net := map sim (map2 (\<lambda>g x. g\<lparr>axon_v := x\<rparr>) snap (v0 s)),
          v0 := map2 (\<lambda>g x. corrected_fl rnd sim g (step s) x) snap (v0 s),
          step := rnd (step s / 2),
          estimates := (estimates s)[i + 1 := map Some (map2 (\<lambda>g x. corrected_fl rnd sim g (step s) x) snap (v0 s))],
          calls := calls s @ [Restore, SetV, Run, ReadCount, ReadCount, WriteRow (i + 1)]\<rparr>)"
proof -
  from assms have st: "stored s = Some snap" and lv: "length (v0 s) = length snap"
    and le: "length (estimates s) = 11" and lr: "length (estimates s ! (i + 1)) = length snap"
    by (simp_all add: ready_def)
  define s1 where "s1 = s\<lparr>net := snap, calls := calls s @ [Restore]\<rparr>"
  define s2 where "s2 = s1\<lparr>net := map2 (\<lambda>g x. g\<lparr>axon_v := x\<rparr>) snap (v0 s), calls := calls s1 @ [SetV]\<rparr>"
  define s3 where "s3 = run_20ms sim s2"
  define s4 where "s4 = s3\<lparr>v0 := map2 (\<lambda>b x. if b then rnd (x - step s) else x) (map (\<lambda>g. S_count g > 0) (net s3)) (v0 s),
     calls := calls s3 @ [ReadCount]\<rparr>"
  define s5 where "s5 = s4\<lparr>v0 := map2 (\<lambda>g x. corrected_fl rnd sim g (step s) x) snap (v0 s),
     calls := calls s4 @ [ReadCount]\<rparr>"
  have r1: "restore s = Inr s1"
    by (simp add: restore_def st s1_def)
  have r2: "assign_v s1 = Inr s2"
    by (simp add: assign_v_def set_v_def s1_def s2_def lv)
  have n3: "net s3 = map sim (map2 (\<lambda>g x. g\<lparr>axon_v := x\<rparr>) snap (v0 s))"
    and v3: "v0 s3 = v0 s" and d3: "step s3 = step s"
    by (simp_all add: s3_def run_20ms_def run_def s2_def s1_def)
  have r4: "decrease_spiked_fl rnd s3 = Inr s4"
    by (simp add: decrease_spiked_fl_def masked_sub_fl_def s4_def v3 d3 n3 lv)
  have n4: "net s4 = net s3" and d4: "step s4 = step s"
    by (simp_all add: s4_def d3)
  have v4: "v0 s4 = map2 (\<lambda>b x. if b then rnd (x - step s) else x) (map (\<lambda>g. S_count g > 0) (net s3)) (v0 s)"
    by (simp add: s4_def)
  have l3: "length (net s3) = length (v0 s)"
    by (simp add: n3 lv)
  have "map2 (\<lambda>b x. if b then rnd (x + step s) else x) (map (\<lambda>g. S_count g = 0) (net s3)) (v0 s4)
        = map2 (\<lambda>g x. if S_count g > 0 then rnd (x - step s) else rnd (x + step s)) (net s3) (v0 s)"
    unfolding v4 by (rule two_masks_fl [OF l3])
  also have "\<dots> = map2 (\<lambda>g x. corrected_fl rnd sim g (step s) x) snap (v0 s)"
    unfolding n3 by (rule run_set_v_fl) (simp add: lv)
  finally have "map2 (\<lambda>b x. if b then rnd (x + step s) else x) (map (\<lambda>g. S_count g = 0) (net s3)) (v0 s4)
        = map2 (\<lambda>g x. corrected_fl rnd sim g (step s) x) snap (v0 s)" .
  then have r5: "increase_silent_fl rnd s4 = Inr s5"
    by (simp add: increase_silent_fl_def masked_add_fl_def n4 d4 s5_def v4 l3)
  have r6: "set_row (i + 1) (halve_step_fl rnd s5) =
    Inr (s\<lparr>net := map sim (map2 (\<lambda>g x. g\<lparr>axon_v := x\<rparr>) snap (v0 s)),
          v0 := map2 (\<lambda>g x. corrected_fl rnd sim g (step s) x) snap (v0 s),
          step := rnd (step s / 2),
          estimates := (estimates s)[i + 1 := map Some (map2 (\<lambda>g x. corrected_fl rnd sim g (step s) x) snap (v0 s))],
          calls := calls s @ [Restore, SetV, Run, ReadCount, ReadCount, WriteRow (i + 1)]\<rparr>)"
    using assms(2) le lr lv
    by (simp add: set_row_def halve_step_fl_def s5_def s4_def s3_def run_20ms_def run_def s2_def s1_def)
  show ?thesis
    unfolding iteration_fl_def r1 and_then_Inr r2 s3_def [symmetric] r4 r5
    by (rule r6)
qed

lemma length_ests_fl [simp]: "length (ests_fl rnd sim snap k) = length snap"
  by (simp add: ests_fl_def)

lemma ests_fl_nth:
  "j < length snap \<Longrightarrow> ests_fl rnd sim snap k ! j = estimate_fl rnd sim (snap ! j) k"
  by (simp add: ests_fl_def)

lemma ests_fl_Suc:
  "map2 (\<lambda>g x. corrected_fl rnd sim g (step_fl rnd k) x) snap (ests_fl rnd sim snap k) =
   ests_fl rnd sim snap (Suc k)"
  by (simp add: list_eq_iff_nth_eq ests_fl_nth)

lemma after_fl_state:
  assumes "k \<le> 10"
  shows "after_fl rnd sim k =
     Inr \<lparr>net = (if k = 0 then axon0
                 else map sim (map2 (\<lambda>g x. g\<lparr>axon_v := x\<rparr>) axon0
                        (ests_fl rnd sim axon0 (k - 1)))),
          stored = Some axon0,
          v0 = ests_fl rnd sim axon0 k,
          step = step_fl rnd k,
          estimates = map (\<lambda>r. if r \<le> k then map Some (ests_fl rnd sim axon0 r)
                                else replicate 100 None) [0..<11],
          calls = [Store, WriteRow 0] @ concat (map iteration_calls [0..<k])\<rparr>"
  using assms
proof (induction k)
  case 0
  have v: "map (\<lambda>one. rnd (rnd (25 * mV_fl rnd) * one)) (replicate 100 1) =
        ests_fl rnd sim axon0 0"
    by (simp add: list_eq_iff_nth_eq ests_fl_nth)
  have "(replicate 11 (replicate 100 None))[0 := map Some (ests_fl rnd sim axon0 0)] =
        map (\<lambda>r. if r \<le> 0 then map Some (ests_fl rnd sim axon0 r)
                                else replicate 100 None) [0..<11]"
    by (auto simp: list_eq_iff_nth_eq nth_list_update)
  then show ?case
    unfolding after_fl_def start_fl_def length_axon_setup v
    by (simp add: prepare_ok axon0_def)
next
  case (Suc k)
  let ?s = "\<lparr>net = (if k = 0 then axon0
                 else map sim (map2 (\<lambda>g x. g\<lparr>axon_v := x\<rparr>) axon0
                        (ests_fl rnd sim axon0 (k - 1)))),
          stored = Some axon0,
          v0 = ests_fl rnd sim axon0 k,
          step = step_fl rnd k,
          estimates = map (\<lambda>r. if r \<le> k then map Some (ests_fl rnd sim axon0 r)
                                else replicate 100 None) [0..<11],
          calls = [Store, WriteRow 0] @ concat (map iteration_calls [0..<k])\<rparr>"
  from Suc have k: "k < 10" and IH: "after_fl rnd sim k = Inr ?s"
    by simp_all
  have rd: "ready axon0 ?s"
    by (simp add: ready_def)
  have "after_fl rnd sim (Suc k) = and_then (after_fl rnd sim k) (iteration_fl rnd sim k)"
    unfolding after_fl_def by (cases "start_fl rnd") (simp_all add: loop_fl_upt_Suc del: upt_Suc)
  also have "\<dots> = iteration_fl rnd sim k ?s"
    by (simp add: IH)
  finally have "after_fl rnd sim (Suc k) = iteration_fl rnd sim k ?s" .
  then show ?case
    unfolding iteration_fl_ready [OF rd k]
    using k
    by (simp add: ests_fl_Suc rows_update iteration_calls_fold)
qed

subsection \<open>Rounding errors of the search\<close>

lemma signed_sum_bound:
  fixes \<sigma> :: "nat \<Rightarrow> real"
  assumes "\<forall>t. \<sigma> t = 1 \<or> \<sigma> t = - 1" "0 \<le> d"
  shows "\<bar>\<Sum>t<k. \<sigma> t * (d / 2 ^ t)\<bar> \<le> 2 * d - 2 * d / 2 ^ k"
proof (induction k)
  case 0
  show ?case by simp
next
  case (Suc k)
  have "\<bar>\<sigma> k\<bar> = 1"
    using assms(1) [rule_format, of k] by auto
  then have "\<bar>\<sigma> k * (d / 2 ^ k)\<bar> = d / 2 ^ k"
    using assms(2) by (simp add: abs_mult)
  then have a: "\<bar>\<sigma> k * (d / 2 ^ k)\<bar> = d / 2 ^ k"
    .
  have "(\<Sum>t<Suc k. \<sigma> t * (d / 2 ^ t)) = (\<Sum>t<k. \<sigma> t * (d / 2 ^ t)) + \<sigma> k * (d / 2 ^ k)"
    by simp
  then have "\<bar>\<Sum>t<Suc k. \<sigma> t * (d / 2 ^ t)\<bar>
      \<le> \<bar>\<Sum>t<k. \<sigma> t * (d / 2 ^ t)\<bar> + \<bar>\<sigma> k * (d / 2 ^ k)\<bar>"
    by (simp only: abs_triangle_ineq)
  then have "\<bar>\<Sum>t<Suc k. \<sigma> t * (d / 2 ^ t)\<bar> \<le> \<bar>\<Sum>t<k. \<sigma> t * (d / 2 ^ t)\<bar> + d / 2 ^ k"
    unfolding a .
  also have "\<dots> \<le> 2 * d - 2 * d / 2 ^ k + d / 2 ^ k"
    using Suc by simp
  also have "\<dots> = 2 * d - 2 * d / 2 ^ Suc k"
    by (simp add: field_simps)
  finally show ?case .
qed

lemma rounds_error: "rounds rnd \<Longrightarrow> \<bar>rnd x - x\<bar> \<le> \<bar>x\<bar> / 9007199254740992"
  by (simp add: rounds_def)

lemma initial_fl:
  assumes "rounds rnd"
  shows "\<bar>step_fl rnd 0 - 25 * mV\<bar> \<le> 1 / 2 ^ 56"
    and "\<bar>estimate_fl rnd sim g 0 - 25 * mV\<bar> \<le> 1 / 2 ^ 56"
proof -
  define c1 where "c1 = rnd (1 / 1000)"
  define c0 where "c0 = rnd (25 * c1)"
  define x0 where "x0 = rnd (c0 * 1)"
  have 1: "\<bar>c1 - 1 / 1000\<bar> \<le> \<bar>1 / 1000 :: real\<bar> / 9007199254740992"
    unfolding c1_def by (rule rounds_error [OF assms])
  have 2: "\<bar>c0 - 25 * c1\<bar> \<le> \<bar>25 * c1\<bar> / 9007199254740992"
    unfolding c0_def by (rule rounds_error [OF assms])
  have 3: "\<bar>x0 - c0 * 1\<bar> \<le> \<bar>c0 * 1\<bar> / 9007199254740992"
    unfolding x0_def by (rule rounds_error [OF assms])
  have a: "\<bar>c0 - 1 / 40\<bar> \<le> 1 / 72057594037927936"
    using 1 2 by (simp add: abs_if split: if_splits)
  have b: "\<bar>x0 - 1 / 40\<bar> \<le> 1 / 72057594037927936"
    using 1 2 3 by (simp add: abs_if split: if_splits)
  show "\<bar>step_fl rnd 0 - 25 * mV\<bar> \<le> 1 / 2 ^ 56"
    using a by (simp add: mV_fl_def mV_def c0_def c1_def)
  show "\<bar>estimate_fl rnd sim g 0 - 25 * mV\<bar> \<le> 1 / 2 ^ 56"
    using b by (simp add: mV_fl_def mV_def x0_def c0_def c1_def)
qed


lemma step_fl_error:
  assumes "rounds rnd" "k \<le> 10"
  shows "\<bar>step_fl rnd k - 25 * mV / 2 ^ k\<bar> \<le> (real k + 1) / 2 ^ 56"
  using assms(2)
proof (induction k)
  case 0
  show ?case
    using initial_fl(1) [OF assms(1)] by simp
next
  case (Suc k)
  define d where "d = step_fl rnd k"
  define D where "D = 25 * mV / 2 ^ k"
  have D: "0 \<le> D" "D \<le> 1 / 40"
    by (simp_all add: D_def mV_def divide_le_eq)
  from Suc have k: "real k \<le> 9" and IH: "\<bar>d - D\<bar> \<le> (real k + 1) / 72057594037927936"
    by (simp_all add: d_def D_def)
  have r: "\<bar>rnd (d / 2) - d / 2\<bar> \<le> \<bar>d / 2\<bar> / 9007199254740992"
    by (rule rounds_error [OF assms(1)])
  have "\<bar>rnd (d / 2) - D / 2\<bar> \<le> (real k + 2) / 72057594037927936"
    using D k IH r by (simp add: abs_if split: if_splits)
  then show ?case
    by (simp add: d_def D_def mult.commute)
qed


lemma estimate_fl_error:
  assumes "rounds rnd" "k \<le> 10"
  shows "\<exists>\<sigma>::nat \<Rightarrow> real. (\<forall>t. \<sigma> t = 1 \<or> \<sigma> t = - 1) \<and>
           \<bar>estimate_fl rnd sim g k - (25 * mV + (\<Sum>t<k. \<sigma> t * (25 * mV / 2 ^ t)))\<bar>
             \<le> (real k + 1)\<^sup>2 / 2 ^ 56"
  using assms(2)
proof (induction k)
  case 0
  show ?case
    using initial_fl(2) [OF assms(1), of sim g] by (intro exI [of _ "\<lambda>_. 1"]) simp
next
  case (Suc k)
  define x where "x = estimate_fl rnd sim g k"
  define d where "d = step_fl rnd k"
  define D where "D = 25 * mV / 2 ^ k"
  define q where "q = (real k + 1)\<^sup>2"
  from Suc obtain \<sigma> :: "nat \<Rightarrow> real" where sg: "\<forall>t. \<sigma> t = 1 \<or> \<sigma> t = - 1"
    and "\<bar>x - (25 * mV + (\<Sum>t<k. \<sigma> t * (25 * mV / 2 ^ t)))\<bar> \<le> q / 2 ^ 56"
    unfolding x_def q_def by auto
  define S where "S = (\<Sum>t<k. \<sigma> t * (25 * mV / 2 ^ t))"
  have E: "\<bar>x - (1 / 40 + S)\<bar> \<le> q / 72057594037927936"
    using \<open>\<bar>x - (25 * mV + (\<Sum>t<k. \<sigma> t * (25 * mV / 2 ^ t)))\<bar> \<le> q / 2 ^ 56\<close>
    by (simp add: S_def mV_def)
  from Suc have k: "real k \<le> 9" and k': "k \<le> 10"
    by simp_all
  have q: "0 \<le> q" "q \<le> 100"
  proof -
    show "0 \<le> q" by (simp add: q_def)
    have "(real k + 1)\<^sup>2 \<le> 10\<^sup>2"
      using k by (intro power_mono) simp_all
    then show "q \<le> 100" by (simp add: q_def)
  qed
  have D: "0 \<le> D" "D \<le> 1 / 40"
    by (simp_all add: D_def mV_def divide_le_eq)
  have "\<bar>S\<bar> \<le> 2 * (25 * mV) - 2 * (25 * mV) / 2 ^ k"
    unfolding S_def by (rule signed_sum_bound [OF sg]) (simp add: mV_def)
  moreover have "0 \<le> 2 * (25 * mV) / 2 ^ k" and "2 * (25 * mV) = 1 / 20"
    by (simp_all add: mV_def)
  ultimately have S: "\<bar>S\<bar> \<le> 1 / 20"
    by linarith
  have dD: "\<bar>d - D\<bar> \<le> (real k + 1) / 72057594037927936"
    using step_fl_error [OF assms(1) k'] by (simp add: d_def D_def)
  define c :: real where "c = (if spikes sim g x then - 1 else 1)"
  define \<tau> where "\<tau> = \<sigma>(k := c)"
  have c: "c = 1 \<or> c = - 1"
    by (simp add: c_def)
  have x': "estimate_fl rnd sim g (Suc k) = rnd (x + c * d)"
    by (simp add: corrected_fl_def c_def x_def d_def)
  have r: "\<bar>rnd (x + c * d) - (x + c * d)\<bar> \<le> \<bar>x + c * d\<bar> / 9007199254740992"
    by (rule rounds_error [OF assms(1)])
  have main: "\<bar>rnd (x + c * d) - (1 / 40 + S + c * D)\<bar> \<le> (q + real k + 2) / 72057594037927936"
    using c
  proof
    assume "c = 1"
    with r E S dD D q k show ?thesis
      by (simp add: abs_if split: if_splits)
  next
    assume "c = - 1"
    with r E S dD D q k show ?thesis
      by (simp add: abs_if split: if_splits)
  qed
  have "q + real k + 2 \<le> (real (Suc k) + 1)\<^sup>2"
    by (simp add: q_def power2_eq_square algebra_simps)
  with main have bound: "\<bar>rnd (x + c * d) - (1 / 40 + S + c * D)\<bar>
      \<le> (real (Suc k) + 1)\<^sup>2 / 72057594037927936"
    by (simp add: divide_le_eq)
  have "\<forall>t. \<tau> t = 1 \<or> \<tau> t = - 1"
    using sg c by (simp add: \<tau>_def)
  moreover have "(\<Sum>t<k. \<tau> t * (25 * mV / 2 ^ t)) = S"
    unfolding S_def by (rule sum.cong) (simp_all add: \<tau>_def)
  then have "25 * mV + (\<Sum>t<Suc k. \<tau> t * (25 * mV / 2 ^ t)) = 1 / 40 + S + c * D"
    by (simp add: \<tau>_def D_def mV_def)
  ultimately show ?case
    using bound unfolding x' by (intro exI [of _ \<tau>]) simp
qed


lemma estimate_fl_range:
  assumes "rounds rnd" "k \<le> 10"
  shows "- 25 * mV < estimate_fl rnd sim g k" and "estimate_fl rnd sim g k < 75 * mV"
proof -
  define x where "x = estimate_fl rnd sim g k"
  define q where "q = (real k + 1)\<^sup>2"
  obtain \<sigma> :: "nat \<Rightarrow> real" where sg: "\<forall>t. \<sigma> t = 1 \<or> \<sigma> t = - 1"
    and "\<bar>x - (25 * mV + (\<Sum>t<k. \<sigma> t * (25 * mV / 2 ^ t)))\<bar> \<le> q / 2 ^ 56"
    using estimate_fl_error [OF assms, of sim g] unfolding x_def q_def by auto
  define S where "S = (\<Sum>t<k. \<sigma> t * (25 * mV / 2 ^ t))"
  have E: "\<bar>x - (1 / 40 + S)\<bar> \<le> q / 72057594037927936"
    using \<open>\<bar>x - (25 * mV + (\<Sum>t<k. \<sigma> t * (25 * mV / 2 ^ t)))\<bar> \<le> q / 2 ^ 56\<close>
    by (simp add: S_def mV_def)
  have "(real k + 1)\<^sup>2 \<le> 11\<^sup>2"
    using assms(2) by (intro power_mono) simp_all
  then have q: "q \<le> 121"
    by (simp add: q_def)
  have "(2::real) ^ k \<le> 2 ^ 10"
    using assms(2) by (intro power_increasing) simp_all
  then have "1 / (2::real) ^ 10 \<le> 1 / 2 ^ k"
    by (intro divide_left_mono) simp_all
  then have p: "1 / 20480 \<le> 2 * (25 * mV) / 2 ^ k"
    by (simp add: mV_def)
  have "\<bar>S\<bar> \<le> 2 * (25 * mV) - 2 * (25 * mV) / 2 ^ k"
    unfolding S_def by (rule signed_sum_bound [OF sg]) (simp add: mV_def)
  moreover have "2 * (25 * mV) = 1 / 20"
    by (simp add: mV_def)
  ultimately have S: "\<bar>S\<bar> \<le> 1 / 20 - 1 / 20480"
    using p by linarith
  have "- (1 / 40) < x \<and> x < 3 / 40"
    using E q S by (simp add: abs_if split: if_splits)
  then show "- 25 * mV < estimate_fl rnd sim g k" and "estimate_fl rnd sim g k < 75 * mV"
    by (simp_all add: x_def mV_def)
qed

lemma step_fl_range:
  assumes "rounds rnd" "k \<le> 10"
  shows "0 < step_fl rnd k" and "step_fl rnd k \<le> 1 / 32"
proof -
  define d where "d = step_fl rnd k"
  define D where "D = 25 * mV / 2 ^ k"
  have "(2::real) ^ k \<le> 2 ^ 10"
    using assms(2) by (intro power_increasing) simp_all
  then have "1 / (2::real) ^ 10 \<le> 1 / 2 ^ k"
    by (intro divide_left_mono) simp_all
  then have p: "1 / 40960 \<le> D"
    by (simp add: D_def mV_def)
  have "1 / (2::real) ^ k \<le> 1"
    by (simp add: divide_le_eq)
  then have p': "D \<le> 1 / 40"
    by (simp add: D_def mV_def)
  have k: "real k \<le> 10"
    using assms(2) by simp
  have "\<bar>d - D\<bar> \<le> (real k + 1) / 72057594037927936"
    using step_fl_error [OF assms] by (simp add: d_def D_def)
  with p p' k have "0 < d \<and> d \<le> 1 / 32"
    by (simp add: abs_if split: if_splits)
  then show "0 < step_fl rnd k" and "step_fl rnd k \<le> 1 / 32"
    by (simp_all add: d_def)
qed

lemma update_fl_error:
  assumes "rounds rnd" "k < 10"
  shows "\<bar>\<bar>estimate_fl rnd sim g (Suc k) - estimate_fl rnd sim g k\<bar> - step_fl rnd k\<bar> \<le> 1 / 2 ^ 56"
proof -
  define x where "x = estimate_fl rnd sim g k"
  define d where "d = step_fl rnd k"
  from assms(2) have k: "k \<le> 10"
    by simp
  have x: "- (1 / 40) < x" "x < 3 / 40"
    using estimate_fl_range [OF assms(1) k, of sim g] by (simp_all add: x_def mV_def)
  have d: "0 < d" "d \<le> 1 / 32"
    using step_fl_range [OF assms(1) k] by (simp_all add: d_def)
  have r1: "\<bar>rnd (x - d) - (x - d)\<bar> \<le> \<bar>x - d\<bar> / 9007199254740992"
    and r2: "\<bar>rnd (x + d) - (x + d)\<bar> \<le> \<bar>x + d\<bar> / 9007199254740992"
    by (rule rounds_error [OF assms(1)])+
  have a: "\<bar>\<bar>rnd (x - d) - x\<bar> - d\<bar> \<le> 1 / 72057594037927936"
    using x d r1 by (simp add: abs_if split: if_splits)
  have b: "\<bar>\<bar>rnd (x + d) - x\<bar> - d\<bar> \<le> 1 / 72057594037927936"
    using x d r2 by (simp add: abs_if split: if_splits)
  show ?thesis
    using a b by (simp add: corrected_fl_def x_def d_def)
qed

subsection \<open>Rounding to binary64\<close>

lemma pow2_pos [simp]: "0 < pow2 e"
  by (simp add: pow2_def)

lemma pow2_nonzero [simp]: "pow2 e \<noteq> 0"
  by (simp add: pow2_def)

lemma pow2_powr: "pow2 e = 2 powr (of_int e)"
proof (cases "0 \<le> e")
  case True
  then have "2 powr (of_int e) = (2::real) powr real (nat e)"
    by simp
  also have "\<dots> = 2 ^ nat e"
    by (simp add: powr_realpow)
  finally show ?thesis
    using True by (simp add: pow2_def)
next
  case False
  then have "2 powr (of_int e) = (2::real) powr (- real (nat (- e)))"
    by simp
  also have "\<dots> = 1 / 2 ^ nat (- e)"
    by (simp add: powr_minus powr_realpow divide_inverse)
  finally show ?thesis
    using False by (simp add: pow2_def)
qed

lemma pow2_diff: "pow2 (e - 52) = pow2 e / 2 ^ 52"
proof -
  have "pow2 (e - 52) = 2 powr (of_int e - 52)"
    by (simp add: pow2_powr)
  also have "\<dots> = 2 powr (of_int e) / 2 powr 52"
    by (rule powr_diff)
  also have "2 powr 52 = (2::real) ^ 52"
    using powr_realpow [of "2::real" 52] by simp
  finally show ?thesis
    by (simp add: pow2_powr)
qed

lemma rne_error: "\<bar>of_int (rne y) - y\<bar> \<le> 1 / 2"
proof -
  define f where "f = \<lfloor>y\<rfloor>"
  have f: "of_int f \<le> y" "y < of_int f + 1"
    unfolding f_def by linarith+
  consider "y - of_int f < 1 / 2" | "1 / 2 < y - of_int f" | "y - of_int f = 1 / 2"
    by linarith
  then show ?thesis
  proof cases
    case 1
    then have "rne y = f"
      by (simp add: rne_def f_def)
    with f 1 show ?thesis by simp
  next
    case 2
    then have "rne y = f + 1"
      by (simp add: rne_def f_def)
    with f 2 show ?thesis by simp
  next
    case 3
    then have "rne y = f \<or> rne y = f + 1"
      by (simp add: rne_def f_def Let_def)
    with f 3 show ?thesis by auto
  qed
qed

lemma floor_log2:
  assumes "pow2 e \<le> x" "x < pow2 (e + 1)"
  shows "\<lfloor>log 2 x\<rfloor> = e"
proof -
  have "0 < x"
    using assms(1) pow2_pos [of e] by linarith
  then show ?thesis
    using assms by (simp add: floor_log_eq_powr_iff pow2_powr)
qed

lemma binary64_at:
  assumes "pow2 e \<le> \<bar>x\<bar>" "\<bar>x\<bar> < pow2 (e + 1)"
  shows "binary64 x = of_int (rne (x / pow2 (e - 52))) * pow2 (e - 52)"
proof -
  have "0 < pow2 e"
    by simp
  with assms(1) have "0 < \<bar>x\<bar>"
    by linarith
  then have "x \<noteq> 0"
    by simp
  then show ?thesis
    by (simp add: binary64_def floor_log2 [OF assms] Let_def)
qed

lemma rounds_binary64: "rounds binary64"
  unfolding rounds_def
proof
  fix x :: real
  show "\<bar>binary64 x - x\<bar> \<le> \<bar>x\<bar> / 2 ^ 53"
  proof (cases "x = 0")
    case True
    then show ?thesis by (simp add: binary64_def)
  next
    case False
    define e where "e = \<lfloor>log 2 \<bar>x\<bar>\<rfloor>"
    define q where "q = pow2 (e - 52)"
    have q: "0 < q"
      by (simp add: q_def)
    have "of_int e \<le> log 2 \<bar>x\<bar>"
      by (simp add: e_def)
    then have "2 powr (of_int e) \<le> \<bar>x\<bar>"
      using False by (simp add: le_log_iff)
    moreover have "q * 2 ^ 52 = pow2 e"
      by (simp add: q_def pow2_diff)
    ultimately have le: "q * 2 ^ 52 \<le> \<bar>x\<bar>"
      by (simp add: pow2_powr)
    have "binary64 x - x = (of_int (rne (x / q)) - x / q) * q"
      using False q by (simp add: binary64_def e_def q_def Let_def field_simps)
    then have "\<bar>binary64 x - x\<bar> = \<bar>of_int (rne (x / q)) - x / q\<bar> * q"
      using q by (simp add: abs_mult)
    also have "\<dots> \<le> 1 / 2 * q"
      using q rne_error [of "x / q"] by (intro mult_right_mono) simp_all
    also have "\<dots> \<le> \<bar>x\<bar> / 2 ^ 53"
      using le by simp
    finally show ?thesis .
  qed
qed


lemma binary64_mV: "binary64 (1 / 1000) = 4611686018427388 / 2 ^ 62"
  by (subst binary64_at [of "- 10"]) (simp_all add: pow2_def rne_def)

lemma binary64_25mV: "binary64 (25 * (4611686018427388 / 2 ^ 62)) = 7205759403792794 / 2 ^ 58"
  by (subst binary64_at [of "- 6"]) (simp_all add: pow2_def rne_def)

lemma binary64_ones: "binary64 (7205759403792794 / 2 ^ 58 * 1) = 7205759403792794 / 2 ^ 58"
  by (subst binary64_at [of "- 6"]) (simp_all add: pow2_def rne_def)

lemma binary64_first: 
  "binary64 (7205759403792794 / 2 ^ 58 + 7205759403792794 / 2 ^ 58) = 7205759403792794 / 2 ^ 57"
  by (subst binary64_at [of "- 5"]) (simp_all add: pow2_def rne_def)

lemma binary64_halved: "binary64 (7205759403792794 / 2 ^ 58 / 2) = 7205759403792794 / 2 ^ 59"
  by (subst binary64_at [of "- 7"]) (simp_all add: pow2_def rne_def)

lemma binary64_second:
  "binary64 (7205759403792794 / 2 ^ 57 - 7205759403792794 / 2 ^ 59) = 5404319552844596 / 2 ^ 57"
  by (subst binary64_at [of "- 5"]) (simp_all add: pow2_def rne_def)

subsection \<open>The masked updates\<close>

text \<open>With the identity for \<open>rnd\<close> the search is the one in exact arithmetic.\<close>

lemma step_fl_exact: "step_fl (\<lambda>x. x) k = 25 * mV / 2 ^ k"
  by (induction k) (simp_all add: mV_fl_def mV_def)

lemma estimate_fl_exact:
  "estimate_fl (\<lambda>x. x) sim g k = estimate sim g (25 * mV) (25 * mV) k"
  by (induction k) (simp_all add: mV_fl_def mV_def corrected_fl_def corrected_def step_fl_exact)

lemma after_fl_exact:
  assumes "k \<le> 10"
  shows "after_fl (\<lambda>x. x) sim k = after sim k"
proof -
  have "ests_fl (\<lambda>x. x) sim axon0 r = ests sim axon0 (25 * mV) (replicate 100 (25 * mV)) r" for r
    by (simp add: list_eq_iff_nth_eq ests_fl_nth ests_nth estimate_fl_exact)
  then show ?thesis
    using assms by (simp add: after_fl_state after_state step_fl_exact del: upt_Suc)
qed

lemma v0_at_after_fl:
  assumes "k \<le> 10" "j < 100"
  shows "v0_at (after_fl rnd sim k) j = Some (estimate_fl rnd sim (axon0 ! j) k)"
  using assms by (simp add: after_fl_state v0_at_def ests_fl_nth)

lemma step_at_after_fl:
  assumes "k \<le> 10"
  shows "step_at (after_fl rnd sim k) = Some (step_fl rnd k)"
  using assms by (simp add: after_fl_state step_at_def)

text \<open>
  Claim C5, as amended. In every iteration the masks \<open>S.count > 0\<close> and
  \<open>S.count == 0\<close> split the 100 segment indices: exactly one of them holds at each
  index, so each entry of \<open>v0\<close> is updated once, to the rounded value of
  \<open>v0 - step\<close> if the segment spiked and of \<open>v0 + step\<close> otherwise. For a rounding
  with relative error at most \<open>2^-53\<close>, as binary64 has, the entry moves by the
  current step up to \<open>2^-56\<close> V; after \<open>k\<close> iterations each estimate is 25 mV plus
  a signed sum of \<open>25/2^t\<close> mV for \<open>t\<close> from 0 to \<open>k - 1\<close> up to \<open>2^-49\<close> V, and
  lies strictly between -25 mV and 75 mV.
\<close>

theorem rounded_updates:
  assumes "rounds rnd"
  shows "(\<forall>k\<le>10. \<forall>j<100. \<exists>x (\<sigma>::nat \<Rightarrow> real). v0_at (after_fl rnd sim k) j = Some x \<and>
       (\<forall>t. \<sigma> t = 1 \<or> \<sigma> t = - 1) \<and>
       \<bar>x - (25 * mV + (\<Sum>t<k. \<sigma> t * (25 * mV / 2 ^ t)))\<bar> \<le> 1 / 2 ^ 49 \<and>
       - 25 * mV < x \<and> x < 75 * mV) \<and>
   (\<forall>k<10. \<exists>s s'. after_fl rnd sim k = Inr s \<and> after_fl rnd sim (Suc k) = Inr s' \<and>
       length (net s') = 100 \<and> length (v0 s) = 100 \<and> length (v0 s') = 100 \<and>
       0 < step s \<and> \<bar>step s - 25 * mV / 2 ^ k\<bar> \<le> 1 / 2 ^ 52 \<and>
       (\<forall>j<100. (0 < S_count (net s' ! j)) \<noteq> (S_count (net s' ! j) = 0) \<and>
          v0 s' ! j = (if 0 < S_count (net s' ! j) then rnd (v0 s ! j - step s)
                       else rnd (v0 s ! j + step s)) \<and>
          \<bar>\<bar>v0 s' ! j - v0 s ! j\<bar> - step s\<bar> \<le> 1 / 2 ^ 56))"
proof (intro conjI allI impI)
  fix k j :: nat
  assume k: "k \<le> 10" and j: "j < 100"
  let ?x = "estimate_fl rnd sim (axon0 ! j) k"
  obtain \<sigma> :: "nat \<Rightarrow> real" where sg: "\<forall>t. \<sigma> t = 1 \<or> \<sigma> t = - 1"
    and e: "\<bar>?x - (25 * mV + (\<Sum>t<k. \<sigma> t * (25 * mV / 2 ^ t)))\<bar> \<le> (real k + 1)\<^sup>2 / 2 ^ 56"
    using estimate_fl_error [OF assms k] by blast
  have "(real k + 1)\<^sup>2 \<le> 11\<^sup>2"
    using k by (intro power_mono) simp_all
  then have "(real k + 1)\<^sup>2 / 2 ^ 56 \<le> 1 / 2 ^ 49"
    by simp
  with e have "\<bar>?x - (25 * mV + (\<Sum>t<k. \<sigma> t * (25 * mV / 2 ^ t)))\<bar> \<le> 1 / 2 ^ 49"
    by linarith
  moreover have "- 25 * mV < ?x" and "?x < 75 * mV"
    by (rule estimate_fl_range [OF assms k])+
  ultimately show "\<exists>x (\<sigma>::nat \<Rightarrow> real). v0_at (after_fl rnd sim k) j = Some x \<and>
       (\<forall>t. \<sigma> t = 1 \<or> \<sigma> t = - 1) \<and>
       \<bar>x - (25 * mV + (\<Sum>t<k. \<sigma> t * (25 * mV / 2 ^ t)))\<bar> \<le> 1 / 2 ^ 49 \<and>
       - 25 * mV < x \<and> x < 75 * mV"
    using v0_at_after_fl [OF k j] sg by blast
next
  fix k :: nat
  assume k: "k < 10"
  then have k': "k \<le> 10"
    by simp
  let ?E = "ests_fl rnd sim axon0"
  let ?D = "step_fl rnd k"
  obtain s where s: "after_fl rnd sim k = Inr s" and vs: "v0 s = ?E k" and ds: "step s = ?D"
    using k by (simp add: after_fl_state)
  obtain s' where s': "after_fl rnd sim (Suc k) = Inr s'" and vs': "v0 s' = ?E (Suc k)"
    and ns': "net s' = map sim (map2 (\<lambda>g x. g\<lparr>axon_v := x\<rparr>) axon0 (?E k))"
    using k by (simp add: after_fl_state)
  have pos: "0 < step s"
    unfolding ds by (rule step_fl_range [OF assms k'])
  have "real k + 1 \<le> 16"
    using k by simp
  then have "(real k + 1) / 2 ^ 56 \<le> 1 / 2 ^ 52"
    by simp
  with step_fl_error [OF assms k'] have dd: "\<bar>step s - 25 * mV / 2 ^ k\<bar> \<le> 1 / 2 ^ 52"
    unfolding ds by linarith
  have each: "(0 < S_count (net s' ! j)) \<noteq> (S_count (net s' ! j) = 0) \<and>
          v0 s' ! j = (if 0 < S_count (net s' ! j) then rnd (v0 s ! j - step s)
                       else rnd (v0 s ! j + step s)) \<and>
          \<bar>\<bar>v0 s' ! j - v0 s ! j\<bar> - step s\<bar> \<le> 1 / 2 ^ 56" if j: "j < 100" for j
  proof -
    have c: "(0 < S_count (net s' ! j)) = spikes sim (axon0 ! j) (?E k ! j)"
      and c': "(S_count (net s' ! j) = 0) = (\<not> spikes sim (axon0 ! j) (?E k ! j))"
      using j by (simp_all add: ns' spikes_def)
    have e: "?E (Suc k) ! j = corrected_fl rnd sim (axon0 ! j) ?D (?E k ! j)"
      using j by (simp add: ests_fl_nth)
    have u: "\<bar>\<bar>?E (Suc k) ! j - ?E k ! j\<bar> - ?D\<bar> \<le> 1 / 2 ^ 56"
      using update_fl_error [OF assms k, of sim "axon0 ! j"] j by (simp add: ests_fl_nth)
    have "?E (Suc k) ! j = (if spikes sim (axon0 ! j) (?E k ! j) then rnd (?E k ! j - ?D)
            else rnd (?E k ! j + ?D))"
      unfolding e by (simp add: corrected_fl_def)
    with u show ?thesis
      unfolding c c' vs vs' ds by simp
  qed
  have "length (net s') = 100 \<and> length (v0 s) = 100 \<and> length (v0 s') = 100"
    by (simp add: ns' vs vs')
  with s s' each pos dd
  show "\<exists>s s'. after_fl rnd sim k = Inr s \<and> after_fl rnd sim (Suc k) = Inr s' \<and>
       length (net s') = 100 \<and> length (v0 s) = 100 \<and> length (v0 s') = 100 \<and>
       0 < step s \<and> \<bar>step s - 25 * mV / 2 ^ k\<bar> \<le> 1 / 2 ^ 52 \<and>
       (\<forall>j<100. (0 < S_count (net s' ! j)) \<noteq> (S_count (net s' ! j) = 0) \<and>
          v0 s' ! j = (if 0 < S_count (net s' ! j) then rnd (v0 s ! j - step s)
                       else rnd (v0 s ! j + step s)) \<and>
          \<bar>\<bar>v0 s' ! j - v0 s ! j\<bar> - step s\<bar> \<le> 1 / 2 ^ 56)"
    by blast
qed


theorem rounded_updates_witness:
  "rounds binary64 \<and> (1::nat) \<le> 10 \<and> (0::nat) < 100 \<and> (1::nat) < 10 \<and>
   (\<exists>x (\<sigma>::nat \<Rightarrow> real). v0_at (after_fl binary64 (threshold_sim (40 * mV)) 1) 0 = Some x \<and>
       (\<forall>t. \<sigma> t = 1 \<or> \<sigma> t = - 1) \<and>
       \<bar>x - (25 * mV + (\<Sum>t<1. \<sigma> t * (25 * mV / 2 ^ t)))\<bar> \<le> 1 / 2 ^ 49 \<and>
       - 25 * mV < x \<and> x < 75 * mV) \<and>
   (\<exists>s s'. after_fl binary64 (threshold_sim (40 * mV)) 1 = Inr s \<and>
       after_fl binary64 (threshold_sim (40 * mV)) (Suc 1) = Inr s' \<and>
       0 < step s \<and> \<bar>step s - 25 * mV / 2 ^ 1\<bar> \<le> 1 / 2 ^ 52 \<and>
       (0 < S_count (net s' ! 0)) \<noteq> (S_count (net s' ! 0) = 0) \<and>
       v0 s' ! 0 = (if 0 < S_count (net s' ! 0) then binary64 (v0 s ! 0 - step s)
                    else binary64 (v0 s ! 0 + step s)) \<and>
       \<bar>\<bar>v0 s' ! 0 - v0 s ! 0\<bar> - step s\<bar> \<le> 1 / 2 ^ 56)"
proof -
  let ?T = "threshold_sim (40 * mV)"
  have r: "rounds binary64"
    by (rule rounds_binary64)
  have k: "(1::nat) \<le> 10" and j: "(0::nat) < 100" and k': "(1::nat) < 10"
    by simp_all
  have a: "\<exists>x (\<sigma>::nat \<Rightarrow> real). v0_at (after_fl binary64 ?T 1) 0 = Some x \<and>
       (\<forall>t. \<sigma> t = 1 \<or> \<sigma> t = - 1) \<and>
       \<bar>x - (25 * mV + (\<Sum>t<1. \<sigma> t * (25 * mV / 2 ^ t)))\<bar> \<le> 1 / 2 ^ 49 \<and>
       - 25 * mV < x \<and> x < 75 * mV"
    by (rule rounded_updates [OF r, of ?T, THEN conjunct1, rule_format, OF k j])
  obtain s s' where s: "after_fl binary64 ?T 1 = Inr s"
    and s': "after_fl binary64 ?T (Suc 1) = Inr s'"
    and p: "0 < step s" "\<bar>step s - 25 * mV / 2 ^ 1\<bar> \<le> 1 / 2 ^ 52"
    and each: "\<forall>j<100. (0 < S_count (net s' ! j)) \<noteq> (S_count (net s' ! j) = 0) \<and>
          v0 s' ! j = (if 0 < S_count (net s' ! j) then binary64 (v0 s ! j - step s)
                       else binary64 (v0 s ! j + step s)) \<and>
          \<bar>\<bar>v0 s' ! j - v0 s ! j\<bar> - step s\<bar> \<le> 1 / 2 ^ 56"
    using rounded_updates [OF r, of ?T, THEN conjunct2, rule_format, OF k']
    by blast
  from s s' p each [rule_format, OF j]
  have "\<exists>s s'. after_fl binary64 ?T 1 = Inr s \<and> after_fl binary64 ?T (Suc 1) = Inr s' \<and>
       0 < step s \<and> \<bar>step s - 25 * mV / 2 ^ 1\<bar> \<le> 1 / 2 ^ 52 \<and>
       (0 < S_count (net s' ! 0)) \<noteq> (S_count (net s' ! 0) = 0) \<and>
       v0 s' ! 0 = (if 0 < S_count (net s' ! 0) then binary64 (v0 s ! 0 - step s)
                    else binary64 (v0 s ! 0 + step s)) \<and>
       \<bar>\<bar>v0 s' ! 0 - v0 s ! 0\<bar> - step s\<bar> \<le> 1 / 2 ^ 56"
    by blast
  with r k j k' a show ?thesis
    by blast
qed

text \<open>The first two iterations in binary64 for a segment with a threshold of 40 mV.\<close>

lemma binary64_start:
  "step_fl binary64 0 = 7205759403792794 / 2 ^ 58"
  "estimate_fl binary64 sim g 0 = 7205759403792794 / 2 ^ 58"
proof -
  show "step_fl binary64 0 = 7205759403792794 / 2 ^ 58"
    unfolding step_fl.simps mV_fl_def binary64_mV by (rule binary64_25mV)
  show "estimate_fl binary64 sim g 0 = 7205759403792794 / 2 ^ 58"
    unfolding estimate_fl.simps mV_fl_def binary64_mV binary64_25mV by (rule binary64_ones)
qed

lemma binary64_step_1: "step_fl binary64 (Suc 0) = 7205759403792794 / 2 ^ 59"
  unfolding step_fl.simps(2) binary64_start by (rule binary64_halved)

lemma binary64_estimate_1:
  "estimate_fl binary64 (threshold_sim (40 * mV)) (resting gna) (Suc 0) = 7205759403792794 / 2 ^ 57"
proof -
  have "\<not> spikes (threshold_sim (40 * mV)) (resting gna) (7205759403792794 / 2 ^ 58)"
    by (simp add: threshold_sim_spikes mV_def)
  then show ?thesis
    unfolding estimate_fl.simps(2) corrected_fl_def binary64_start
    by (simp only: if_False binary64_first)
qed

lemma binary64_estimate_2:
  "estimate_fl binary64 (threshold_sim (40 * mV)) (resting gna) (Suc (Suc 0)) =
     5404319552844596 / 2 ^ 57"
proof -
  have "spikes (threshold_sim (40 * mV)) (resting gna) (7205759403792794 / 2 ^ 57)"
    by (simp add: threshold_sim_spikes mV_def)
  then show ?thesis
    unfolding estimate_fl.simps(2) [of _ _ _ "Suc 0"] corrected_fl_def binary64_estimate_1
      binary64_step_1
    by (simp only: if_True binary64_second)
qed

text \<open>
  Claim C5, as stated, fails in the arithmetic of the notebook: for a segment with a
  threshold of 40 mV the estimate after the first iteration is the binary64 number
  0.05 and the step the binary64 number 0.0125; the segment spikes, and the rounded
  difference 0.037500000000000006 is not a step away from 0.05.
\<close>

theorem exact_step_fails:
  "v0_at (after_fl binary64 (threshold_sim (40 * mV)) 1) 0 = Some (7205759403792794 / 2 ^ 57) \<and>
   step_at (after_fl binary64 (threshold_sim (40 * mV)) 1) = Some (7205759403792794 / 2 ^ 59) \<and>
   v0_at (after_fl binary64 (threshold_sim (40 * mV)) 2) 0 = Some (5404319552844596 / 2 ^ 57) \<and>
   \<bar>5404319552844596 / 2 ^ 57 - 7205759403792794 / 2 ^ 57\<bar> \<noteq> (7205759403792794 / 2 ^ 59 :: real)"
proof -
  let ?T = "threshold_sim (40 * mV)"
  have a0: "axon0 ! 0 = resting (gNa_expr 0 100)"
    by (simp add: axon0_def axon_setup_nth)
  have "v0_at (after_fl binary64 ?T 1) 0 = Some (estimate_fl binary64 ?T (axon0 ! 0) 1)"
    by (rule v0_at_after_fl) simp_all
  then have a: "v0_at (after_fl binary64 ?T 1) 0 = Some (7205759403792794 / 2 ^ 57)"
    unfolding a0 One_nat_def binary64_estimate_1 .
  have "step_at (after_fl binary64 ?T 1) = Some (step_fl binary64 1)"
    by (rule step_at_after_fl) simp
  then have b: "step_at (after_fl binary64 ?T 1) = Some (7205759403792794 / 2 ^ 59)"
    unfolding One_nat_def binary64_step_1 .
  have "v0_at (after_fl binary64 ?T 2) 0 = Some (estimate_fl binary64 ?T (axon0 ! 0) 2)"
    by (rule v0_at_after_fl) simp_all
  then have c: "v0_at (after_fl binary64 ?T 2) 0 = Some (5404319552844596 / 2 ^ 57)"
    unfolding a0 numeral_2_eq_2 binary64_estimate_2 .
  have d: "\<bar>5404319552844596 / 2 ^ 57 - 7205759403792794 / 2 ^ 57\<bar> \<noteq> (7205759403792794 / 2 ^ 59 :: real)"
    by simp
  from a b c d show ?thesis
    by blast
qed

section \<open>Proofs for the pyloric circuit\<close>

lemma upt_3: "[0..<3] = [0, 1, 2]"
  by (simp add: upt_rec)

lemma length_circuit: "length (circuit rand_w rand_z) = 3"
  by (simp add: circuit_def)

lemma circuit_labels: "map circuit_label (circuit rand_w rand_z) = [ABPD, LP, PY]"
  by (simp add: circuit_def upt_3)

lemma circuit_label_nth:
  "circuit_label (circuit rand_w rand_z ! 0) = ABPD"
  "circuit_label (circuit rand_w rand_z ! Suc 0) = LP"
  "circuit_label (circuit rand_w rand_z ! 2) = PY"
  by (simp_all add: circuit_def upt_3)

lemma labels_differ: "ABPD \<noteq> LP" "ABPD \<noteq> PY" "LP \<noteq> PY" "LP \<noteq> ABPD" "PY \<noteq> ABPD" "PY \<noteq> LP"
  by (simp_all add: ABPD_def LP_def PY_def)

lemma connect_fast:
  "connect fast_condition (circuit rand_w rand_z) (circuit rand_w rand_z) =
     [(0, 1), (0, 2), (1, 0), (1, 2), (2, 1)]"
  by (simp add: connect_def length_circuit upt_3 circuit_label_nth fast_condition_def labels_differ)

lemma connect_slow:
  "connect slow_condition (circuit rand_w rand_z) (circuit rand_w rand_z) = [(0, 1), (0, 2)]"
  by (simp add: connect_def length_circuit upt_3 circuit_label_nth slow_condition_def labels_differ)


text \<open>
  Claim C10. The condition of the fast synapses creates the five ordered pairs
  ABPD to LP, ABPD to PY, LP to ABPD, LP to PY and PY to LP, and these are the pairs of
  labels that the five assignments to \<open>g_fast\<close> name; the condition of the slow
  synapses creates the two pairs ABPD to LP and ABPD to PY, the pairs that receive
  \<open>g_slow\<close> and \<open>k_2\<close>. Every created synapse is matched by exactly one assignment
  condition and ends with the conductance written there, none with the default zero.
\<close>

theorem pyloric_synapses:
  "label_pairs (circuit rand_w rand_z)
      (connect fast_condition (circuit rand_w rand_z) (circuit rand_w rand_z)) =
     [(ABPD, LP), (ABPD, PY), (LP, ABPD), (LP, PY), (PY, LP)] \<and>
   filter (\<lambda>lp. 0 < matching g_fast_conditions lp)
      (List.product [ABPD, LP, PY] [ABPD, LP, PY]) =
     [(ABPD, LP), (ABPD, PY), (LP, ABPD), (LP, PY), (PY, LP)] \<and>
   map (matching g_fast_conditions) [(ABPD, LP), (ABPD, PY), (LP, ABPD), (LP, PY), (PY, LP)] =
     [1, 1, 1, 1, 1] \<and>
   fast_synapses (circuit rand_w rand_z) =
     [\<lparr>fast_i = 0, fast_j = 1, g_fast = 0.015 * uS\<rparr>,
      \<lparr>fast_i = 0, fast_j = 2, g_fast = 0.005 * uS\<rparr>,
      \<lparr>fast_i = 1, fast_j = 0, g_fast = 0.01 * uS\<rparr>,
      \<lparr>fast_i = 1, fast_j = 2, g_fast = 0.02 * uS\<rparr>,
      \<lparr>fast_i = 2, fast_j = 1, g_fast = 0.005 * uS\<rparr>] \<and>
   filter (\<lambda>y. g_fast y = 0) (fast_synapses (circuit rand_w rand_z)) = [] \<and>
   label_pairs (circuit rand_w rand_z)
      (connect slow_condition (circuit rand_w rand_z) (circuit rand_w rand_z)) =
     [(ABPD, LP), (ABPD, PY)] \<and>
   map (matching slow_conditions) [(ABPD, LP), (ABPD, PY)] = [1, 1] \<and>
   filter (\<lambda>y. g_slow y = 0 \<or> k_2 y = 0) (slow_synapses (circuit rand_w rand_z)) = [] \<and>
   slow_synapses (circuit rand_w rand_z) =
     [\<lparr>slow_i = 0, slow_j = 1, k_2 = 0.03 / ms, g_slow = 0.025 * uS\<rparr>,
      \<lparr>slow_i = 0, slow_j = 2, k_2 = 0.008 / ms, g_slow = 0.015 * uS\<rparr>]"
proof (intro conjI)
  let ?c = "circuit rand_w rand_z"
  show "label_pairs ?c (connect fast_condition ?c ?c) =
     [(ABPD, LP), (ABPD, PY), (LP, ABPD), (LP, PY), (PY, LP)]"
    by (simp add: connect_fast label_pairs_def circuit_label_nth)
  show "filter (\<lambda>lp. 0 < matching g_fast_conditions lp)
      (List.product [ABPD, LP, PY] [ABPD, LP, PY]) =
     [(ABPD, LP), (ABPD, PY), (LP, ABPD), (LP, PY), (PY, LP)]"
    by (simp add: matching_def g_fast_conditions_def labels_differ)
  show "map (matching g_fast_conditions) [(ABPD, LP), (ABPD, PY), (LP, ABPD), (LP, PY), (PY, LP)] =
     [1, 1, 1, 1, 1]"
    by (simp add: matching_def g_fast_conditions_def labels_differ)
  show fast: "fast_synapses ?c =
     [\<lparr>fast_i = 0, fast_j = 1, g_fast = 0.015 * uS\<rparr>,
      \<lparr>fast_i = 0, fast_j = 2, g_fast = 0.005 * uS\<rparr>,
      \<lparr>fast_i = 1, fast_j = 0, g_fast = 0.01 * uS\<rparr>,
      \<lparr>fast_i = 1, fast_j = 2, g_fast = 0.02 * uS\<rparr>,
      \<lparr>fast_i = 2, fast_j = 1, g_fast = 0.005 * uS\<rparr>]"
    by (simp add: fast_synapses_def fast_created_def connect_fast set_g_fast_def
        g_fast_conditions_def circuit_label_nth labels_differ)
  show "filter (\<lambda>y. g_fast y = 0) (fast_synapses ?c) = []"
    unfolding fast by (simp add: uS_def)
  show "label_pairs ?c (connect slow_condition ?c ?c) = [(ABPD, LP), (ABPD, PY)]"
    by (simp add: connect_slow label_pairs_def circuit_label_nth)
  show "map (matching slow_conditions) [(ABPD, LP), (ABPD, PY)] = [1, 1]"
    by (simp add: matching_def slow_conditions_def labels_differ)
  show slow: "slow_synapses ?c =
     [\<lparr>slow_i = 0, slow_j = 1, k_2 = 0.03 / ms, g_slow = 0.025 * uS\<rparr>,
      \<lparr>slow_i = 0, slow_j = 2, k_2 = 0.008 / ms, g_slow = 0.015 * uS\<rparr>]"
    by (simp add: slow_synapses_def slow_created_def connect_slow set_g_slow_def set_k_2_def
        slow_conditions_def circuit_label_nth labels_differ)
  show "filter (\<lambda>y. g_slow y = 0 \<or> k_2 y = 0) (slow_synapses ?c) = []"
    unfolding slow by (simp add: uS_def ms_def)
qed

text \<open>
  Claim C8. The pyloric circuit is a group of three neurons labelled ABPD, LP and PY. Its
  conductances depend on the activity: \<open>s = S*(1 - tanh(z))\<close> and
  \<open>g = G*(1 + tanh(z))\<close>, so \<open>s\<close> falls and \<open>g\<close> rises as \<open>z\<close> grows; \<open>z\<close>
  changes at the rate \<open>tanh(Ca - Ca_target)/tau_z\<close>, upwards exactly when the Calcium
  signal is above the neuron's own target; and every spike adds 0.1 to \<open>Ca\<close>.
\<close>

theorem pyloric_neurons:
  "length (circuit rand_w rand_z) = 3 \<and>
   map circuit_label (circuit rand_w rand_z) = [ABPD, LP, PY] \<and>
   distinct [ABPD, LP, PY] \<and>
   map circuit_Ca_target (circuit rand_w rand_z) = [0.048, 0.0384, 0.06] \<and>
   circuit_s nr = S * (1 - tanh (circuit_z nr)) \<and>
   circuit_g nr = G * (1 + tanh (circuit_z nr)) \<and>
   (circuit_s nr < circuit_s nr' \<longleftrightarrow> circuit_z nr' < circuit_z nr) \<and>
   (circuit_g nr < circuit_g nr' \<longleftrightarrow> circuit_z nr < circuit_z nr') \<and>
   dz_dt nr = tanh (circuit_Ca nr - circuit_Ca_target nr) / tau_z \<and>
   (0 < dz_dt nr \<longleftrightarrow> circuit_Ca_target nr < circuit_Ca nr) \<and>
   (dz_dt nr < 0 \<longleftrightarrow> circuit_Ca nr < circuit_Ca_target nr) \<and>
   circuit_Ca (reset nr) = circuit_Ca nr + 0.1 \<and>
   map circuit_Ca (spike_and_reset grp) =
     map (\<lambda>nr. if spiked nr then circuit_Ca nr + 0.1 else circuit_Ca nr) grp"
proof (intro conjI)
  have S: "0 < S"
    by (simp add: S_def nA_def Delta_T_def mV_def)
  have G: "0 < G"
    by (simp add: G_def nS_def)
  have tz: "0 < tau_z"
    by (simp add: tau_z_def second_def)
  show "length (circuit rand_w rand_z) = 3"
    by (rule length_circuit)
  show "map circuit_label (circuit rand_w rand_z) = [ABPD, LP, PY]"
    by (rule circuit_labels)
  show "distinct [ABPD, LP, PY]"
    by (simp add: labels_differ)
  show "map circuit_Ca_target (circuit rand_w rand_z) = [0.048, 0.0384, 0.06]"
    by (simp add: circuit_def upt_3)
  show "circuit_s nr = S * (1 - tanh (circuit_z nr))"
    by (simp add: circuit_s_def)
  show "circuit_g nr = G * (1 + tanh (circuit_z nr))"
    by (simp add: circuit_g_def)
  show "circuit_s nr < circuit_s nr' \<longleftrightarrow> circuit_z nr' < circuit_z nr"
    using S by (simp add: circuit_s_def)
  show "circuit_g nr < circuit_g nr' \<longleftrightarrow> circuit_z nr < circuit_z nr'"
    using G by (simp add: circuit_g_def)
  show "dz_dt nr = tanh (circuit_Ca nr - circuit_Ca_target nr) / tau_z"
    by (simp add: dz_dt_def)
  show "0 < dz_dt nr \<longleftrightarrow> circuit_Ca_target nr < circuit_Ca nr"
    using tz by (simp add: dz_dt_def zero_less_divide_iff)
  show "dz_dt nr < 0 \<longleftrightarrow> circuit_Ca nr < circuit_Ca_target nr"
    using tz by (simp add: dz_dt_def divide_less_0_iff)
  show "circuit_Ca (reset nr) = circuit_Ca nr + 0.1"
    by (simp add: reset_def)
  show "map circuit_Ca (spike_and_reset grp) =
     map (\<lambda>nr. if spiked nr then circuit_Ca nr + 0.1 else circuit_Ca nr) grp"
    by (simp add: spike_and_reset_def reset_def)
qed

end
